theory Spec2Isabelle
  imports Main "HOL-Library.Char_ord" "HOL-Library.List_Lexorder" "HOL-Library.Sublist"
begin

section \<open>Strings and paths\<close>

text \<open>
  Python strings are modelled as \<open>string\<close> (lists of characters), compared as Python
  compares them: lexicographically, character by character. The functions of this
  section are the string methods and the \<open>posixpath\<close> functions the program calls.
\<close>

definition HIDDEN_FILE_PREFIX :: string where
  "HIDDEN_FILE_PREFIX = ''.''"

definition KMAIL_SUBDIR_PREFIX :: string where
  "KMAIL_SUBDIR_PREFIX = ''.''"

definition KMAIL_SUBDIR_SUFFIX :: string where
  "KMAIL_SUBDIR_SUFFIX = ''.directory''"

definition DEFAULT_HIERARCHY_SEPARATOR :: string where
  "DEFAULT_HIERARCHY_SEPARATOR = ''.''"

definition MAILDIR_SPECIAL_DIRS :: "string list" where
  "MAILDIR_SPECIAL_DIRS = [''cur'', ''new'', ''tmp'']"

definition startswith :: "string \<Rightarrow> string \<Rightarrow> bool" where
  "startswith s p = (take (length p) s = p)"

definition endswith :: "string \<Rightarrow> string \<Rightarrow> bool" where
  "endswith s p = (length p \<le> length s \<and> drop (length s - length p) s = p)"

text \<open>\<open>s[a:b]\<close> for indices \<open>0 \<le> a\<close> and \<open>0 \<le> b\<close>; it is empty when \<open>b \<le> a\<close>.\<close>

definition slice :: "string \<Rightarrow> nat \<Rightarrow> nat \<Rightarrow> string" where
  "slice s a b = take (b - a) (drop a s)"

text \<open>\<open>s.split('/')\<close>: the pieces between the separators, empty pieces included.\<close>

fun split_sep :: "string \<Rightarrow> string list" where
  "split_sep [] = [[]]"
| "split_sep (c # cs) =
     (if c = CHR ''/'' then [] # split_sep cs
      else (case split_sep cs of [] \<Rightarrow> [[c]] | w # ws \<Rightarrow> (c # w) # ws))"

text \<open>\<open>sep.join(xs)\<close>.\<close>

fun str_join :: "string \<Rightarrow> string list \<Rightarrow> string" where
  "str_join sep [] = []"
| "str_join sep [x] = x"
| "str_join sep (x # y # ys) = x @ sep @ str_join sep (y # ys)"

text \<open>\<open>posixpath.join(a, b)\<close>.\<close>

definition path_join :: "string \<Rightarrow> string \<Rightarrow> string" where
  "path_join a b =
     (if startswith b ''/'' then b
      else if a = [] \<or> endswith a ''/'' then a @ b
      else a @ ''/'' @ b)"

text \<open>\<open>s.rstrip('/')\<close>.\<close>

definition rstrip_sep :: "string \<Rightarrow> string" where
  "rstrip_sep s = rev (dropWhile (\<lambda>c. c = CHR ''/'') (rev s))"

text \<open>
  \<open>posixpath.split(p)\<close>: the text up to and including the last separator, and the rest;
  trailing separators are removed from the head unless it consists of separators only.
\<close>

definition path_tail :: "string \<Rightarrow> string" where
  "path_tail p = rev (takeWhile (\<lambda>c. c \<noteq> CHR ''/'') (rev p))"

definition path_split :: "string \<Rightarrow> string \<times> string" where
  "path_split p =
     (let tail = path_tail p;
          head = take (length p - length tail) p
      in (if head \<noteq> [] \<and> head \<noteq> replicate (length head) (CHR ''/'') then rstrip_sep head else head,
          tail))"

definition basename :: "string \<Rightarrow> string" where
  "basename p = snd (path_split p)"

definition dirname :: "string \<Rightarrow> string" where
  "dirname p = fst (path_split p)"

text \<open>
  The components of \<open>posixpath.abspath(p)\<close> for the working directory \<open>wd\<close> (an absolute
  path): empty components and \<open>.\<close> are dropped, \<open>..\<close> removes the component before it
  and is dropped at the top.
\<close>

fun norm_comps :: "string list \<Rightarrow> string list \<Rightarrow> string list" where
  "norm_comps acc [] = acc"
| "norm_comps acc (c # cs) =
     (if c = [] \<or> c = ''.'' then norm_comps acc cs
      else if c = ''..'' then norm_comps (butlast acc) cs
      else norm_comps (acc @ [c]) cs)"

definition abspath_comps :: "string \<Rightarrow> string \<Rightarrow> string list" where
  "abspath_comps wd p =
     norm_comps [] (split_sep (if startswith p ''/'' then p else path_join wd p))"

fun common_prefix_len :: "string list \<Rightarrow> string list \<Rightarrow> nat" where
  "common_prefix_len (x # xs) (y # ys) = (if x = y then Suc (common_prefix_len xs ys) else 0)"
| "common_prefix_len _ _ = 0"

datatype errno = ENOENT | ENOTDIR | EISDIR | ENOTEMPTY | EINVAL | EBUSY

datatype error =
    Exception string
  | OSError errno
  | IndexError
  | ValueError
  | RecursionError

text \<open>\<open>posixpath.relpath(path, start)\<close>; it raises \<open>ValueError\<close> for an empty \<open>path\<close>.\<close>

definition relpath :: "string \<Rightarrow> string \<Rightarrow> string \<Rightarrow> error + string" where
  "relpath wd p start =
     (if p = [] then Inl ValueError
      else
        let start_list = abspath_comps wd start;
            path_list = abspath_comps wd p;
            i = common_prefix_len start_list path_list;
            rel_list = replicate (length start_list - i) ''..'' @ drop i path_list
        in Inr (case rel_list of [] \<Rightarrow> ''.'' | r # rs \<Rightarrow> foldl path_join r rs))"

section \<open>The filesystem\<close>

text \<open>
  The filesystem is a tree from the root directory \<open>/\<close>; a directory lists its entries
  in the order the operating system enumerates them. There are no symbolic links, and a
  path is resolved as \<open>abspath\<close> normalises it: a component \<open>..\<close> cancels the component
  before it in the text of the path, also where that component names no directory of
  the tree and the operating system would report an error. The world of a run is the tree, the
  working directory, the number of nested calls the interpreter allows, the lines printed
  so far, and a record of the calls made to the \<open>FileSystemAction\<close> methods, which the
  program itself never reads.
\<close>

datatype node = File string | Dir "(string \<times> node) list"

datatype call =
    Call_rename string string
  | Call_delete string
  | Call_rmdir string

record world =
  tree :: node
  cwd :: string
  recursion_limit :: nat
  stdout :: "string list"
  calls :: "call list"

fun lookup :: "node \<Rightarrow> string list \<Rightarrow> node option" where
  "lookup n [] = Some n"
| "lookup n (c # cs) =
     (case n of
        File _ \<Rightarrow> None
      | Dir es \<Rightarrow> (case map_of es c of None \<Rightarrow> None | Some ch \<Rightarrow> lookup ch cs))"

fun remove_at :: "string list \<Rightarrow> node \<Rightarrow> node" where
  "remove_at [] n = n"
| "remove_at [c] n =
     (case n of File x \<Rightarrow> File x | Dir es \<Rightarrow> Dir (filter (\<lambda>e. fst e \<noteq> c) es))"
| "remove_at (c # d # cs) n =
     (case n of
        File x \<Rightarrow> File x
      | Dir es \<Rightarrow> Dir (map (\<lambda>e. if fst e = c then (c, remove_at (d # cs) (snd e)) else e) es))"

fun insert_at :: "string list \<Rightarrow> node \<Rightarrow> node \<Rightarrow> node" where
  "insert_at [] new n = n"
| "insert_at [c] new n =
     (case n of
        File x \<Rightarrow> File x
      | Dir es \<Rightarrow>
          Dir (if List.member (map fst es) c
               then map (\<lambda>e. if fst e = c then (c, new) else e) es
               else es @ [(c, new)]))"
| "insert_at (c # d # cs) new n =
     (case n of
        File x \<Rightarrow> File x
      | Dir es \<Rightarrow> Dir (map (\<lambda>e. if fst e = c then (c, insert_at (d # cs) new (snd e)) else e) es))"

definition resolve :: "world \<Rightarrow> string \<Rightarrow> string list" where
  "resolve w p = abspath_comps (cwd w) p"

definition stat :: "world \<Rightarrow> string \<Rightarrow> node option" where
  "stat w p = (if p = [] then None else lookup (tree w) (resolve w p))"

text \<open>\<open>os.path.exists\<close> and \<open>os.path.isdir\<close>.\<close>

definition path_exists :: "world \<Rightarrow> string \<Rightarrow> bool" where
  "path_exists w p = (stat w p \<noteq> None)"

definition isdir :: "world \<Rightarrow> string \<Rightarrow> bool" where
  "isdir w p = (case stat w p of Some (Dir _) \<Rightarrow> True | _ \<Rightarrow> False)"

text \<open>\<open>os.listdir\<close>.\<close>

definition listdir :: "world \<Rightarrow> string \<Rightarrow> error + string list" where
  "listdir w p =
     (case stat w p of
        None \<Rightarrow> Inl (OSError ENOENT)
      | Some (File _) \<Rightarrow> Inl (OSError ENOTDIR)
      | Some (Dir es) \<Rightarrow> Inr (map fst es))"

text \<open>
  \<open>os.rename\<close>, \<open>os.remove\<close> and \<open>os.rmdir\<close> with the errors of POSIX; a call that fails
  leaves the world as it was. A path that leads to no node of the tree is reported as
  \<open>ENOENT\<close> in every case, also where it leads through a regular file and the operating
  system reports \<open>ENOTDIR\<close>; the program treats both in the same way, as it catches
  neither.
\<close>

definition os_rename :: "string \<Rightarrow> string \<Rightarrow> world \<Rightarrow> (error + unit) \<times> world" where
  "os_rename src dst w =
     (let s = resolve w src; d = resolve w dst in
      case stat w src of
        None \<Rightarrow> (Inl (OSError ENOENT), w)
      | Some n \<Rightarrow>
          if dst = [] then (Inl (OSError ENOENT), w)
          else if s = d then (Inr (), w)
          else if s = [] \<or> d = [] then (Inl (OSError EBUSY), w)
          else if prefix s d then (Inl (OSError EINVAL), w)
          else
            (case lookup (tree w) (butlast d) of
               None \<Rightarrow> (Inl (OSError ENOENT), w)
             | Some (File _) \<Rightarrow> (Inl (OSError ENOTDIR), w)
             | Some (Dir _) \<Rightarrow>
                 (case (n, lookup (tree w) d) of
                    (File _, Some (Dir _)) \<Rightarrow> (Inl (OSError EISDIR), w)
                  | (Dir _, Some (File _)) \<Rightarrow> (Inl (OSError ENOTDIR), w)
                  | (Dir _, Some (Dir (e # es))) \<Rightarrow> (Inl (OSError ENOTEMPTY), w)
                  | _ \<Rightarrow> (Inr (), w\<lparr>tree := insert_at d n (remove_at s (tree w))\<rparr>))))"

definition os_remove :: "string \<Rightarrow> world \<Rightarrow> (error + unit) \<times> world" where
  "os_remove file w =
     (case stat w file of
        None \<Rightarrow> (Inl (OSError ENOENT), w)
      | Some (Dir _) \<Rightarrow> (Inl (OSError EISDIR), w)
      | Some (File _) \<Rightarrow> (Inr (), w\<lparr>tree := remove_at (resolve w file) (tree w)\<rparr>))"

definition os_rmdir :: "string \<Rightarrow> world \<Rightarrow> (error + unit) \<times> world" where
  "os_rmdir directory w =
     (case stat w directory of
        None \<Rightarrow> (Inl (OSError ENOENT), w)
      | Some (File _) \<Rightarrow> (Inl (OSError ENOTDIR), w)
      | Some (Dir (e # es)) \<Rightarrow> (Inl (OSError ENOTEMPTY), w)
      | Some (Dir []) \<Rightarrow>
          if resolve w directory = [] then (Inl (OSError EBUSY), w)
          else (Inr (), w\<lparr>tree := remove_at (resolve w directory) (tree w)\<rparr>))"

text \<open>
  \<open>fnmatch\<close>: \<open>*\<close> stands for any text and \<open>?\<close> for any one character. An opening
  bracket starts a character class when a closing bracket follows it, where a \<open>!\<close>
  right after it negates the class and a closing bracket in first place belongs to the
  class; without a closing bracket it stands for itself. In the class a hyphen between
  two characters makes the range of the characters from the one to the other, which is
  empty when the first is the greater one; a hyphen in first or last place, or right
  after a range, stands for itself.
\<close>

definition bracket_negated :: "string \<Rightarrow> bool" where
  "bracket_negated ps = startswith ps ''!''"

definition bracket_content :: "string \<Rightarrow> string" where
  "bracket_content ps = (if bracket_negated ps then tl ps else ps)"

definition bracket_closed :: "string \<Rightarrow> bool" where
  "bracket_closed ps = list_ex (\<lambda>c. c = CHR '']'') (tl (bracket_content ps))"

definition bracket_body :: "string \<Rightarrow> string" where
  "bracket_body ps =
     take 1 (bracket_content ps) @ takeWhile (\<lambda>c. c \<noteq> CHR '']'') (tl (bracket_content ps))"

definition bracket_rest :: "string \<Rightarrow> string" where
  "bracket_rest ps = tl (dropWhile (\<lambda>c. c \<noteq> CHR '']'') (tl (bracket_content ps)))"

text \<open>
  The pieces of a class between the hyphens that make ranges: the last character of a
  piece and the first character of the next one are the ends of a range.
\<close>

fun range_chunks :: "nat \<Rightarrow> string \<Rightarrow> string \<Rightarrow> string list" where
  "range_chunks skipped acc [] = [rev acc]"
| "range_chunks skipped acc (c # cs) =
     (if skipped = 0 \<and> c = CHR ''-'' then rev acc # range_chunks 2 [] cs
      else range_chunks (skipped - 1) (c # acc) cs)"

definition class_chunks :: "string \<Rightarrow> string list" where
  "class_chunks body =
     (let chunks = range_chunks 1 [] body
      in if 2 \<le> length chunks \<and> last chunks = []
         then butlast (butlast chunks) @ [last (butlast chunks) @ ''-'']
         else chunks)"

fun in_chunks :: "char \<Rightarrow> string list \<Rightarrow> bool" where
  "in_chunks c [] = False"
| "in_chunks c [chunk] = List.member chunk c"
| "in_chunks c (chunk # next_chunk # chunks) =
     (List.member (butlast chunk) c
      \<or> (chunk \<noteq> [] \<and> next_chunk \<noteq> [] \<and> last chunk \<le> c \<and> c \<le> hd next_chunk)
      \<or> in_chunks c (tl next_chunk # chunks))"

definition in_class :: "string \<Rightarrow> char \<Rightarrow> bool" where
  "in_class ps c = (in_chunks c (class_chunks (bracket_body ps)) \<noteq> bracket_negated ps)"

function fnmatch :: "string \<Rightarrow> string \<Rightarrow> bool" where
  "fnmatch [] [] = True"
| "fnmatch (c # cs) [] = False"
| "fnmatch [] (p # ps) = (p = CHR ''*'' \<and> fnmatch [] ps)"
| "fnmatch (c # cs) (p # ps) =
     (if p = CHR ''*'' then fnmatch (c # cs) ps \<or> fnmatch cs (p # ps)
      else if p = CHR ''?'' then fnmatch cs ps
      else if p = CHR ''['' then
        (if bracket_closed ps then in_class ps c \<and> fnmatch cs (bracket_rest ps)
         else c = CHR ''['' \<and> fnmatch cs ps)
      else p = c \<and> fnmatch cs ps)"
  by pat_completeness auto
termination
proof (relation "measure (\<lambda>(n, p). length n + length p)")
  show "wf (measure (\<lambda>(n, p). length n + length p))" by simp
next
  fix p :: char and ps :: string
  show "(([], ps), ([], p # ps)) \<in> measure (\<lambda>(n, p). length n + length p)" by simp
next
  fix c p :: char and cs ps :: string
  show "((c # cs, ps), (c # cs, p # ps)) \<in> measure (\<lambda>(n, p). length n + length p)" by simp
next
  fix c p :: char and cs ps :: string
  show "((cs, p # ps), (c # cs, p # ps)) \<in> measure (\<lambda>(n, p). length n + length p)" by simp
next
  fix c p :: char and cs ps :: string
  show "((cs, ps), (c # cs, p # ps)) \<in> measure (\<lambda>(n, p). length n + length p)" by simp
next
  fix c p :: char and cs ps :: string
  have "length (bracket_rest ps) \<le> length ps"
  proof -
    have "length (bracket_rest ps) \<le> length (tl (bracket_content ps))"
      unfolding bracket_rest_def
      by (metis diff_le_self le_trans length_dropWhile_le length_tl)
    also have "\<dots> \<le> length (bracket_content ps)" by simp
    also have "\<dots> \<le> length ps" by (simp add: bracket_content_def)
    finally show ?thesis .
  qed
  then show "((cs, bracket_rest ps), (c # cs, p # ps)) \<in> measure (\<lambda>(n, p). length n + length p)"
    by simp
next
  fix c p :: char and cs ps :: string
  show "((cs, ps), (c # cs, p # ps)) \<in> measure (\<lambda>(n, p). length n + length p)" by simp
next
  fix c p :: char and cs ps :: string
  show "((cs, ps), (c # cs, p # ps)) \<in> measure (\<lambda>(n, p). length n + length p)" by simp
qed

text \<open>
  \<open>glob.glob(pathname)\<close>. A pattern without a wildcard character gives itself when it
  exists. Otherwise the last component is matched against the entries of every directory
  that the directory part stands for, in directory order, and each match is joined to
  that directory (bare names when the pattern has no directory part); the directory part
  stands for itself when it has no wildcard character, and for the directories that it
  matches when it has one. An entry whose name begins with a dot matches only a pattern
  that begins with a dot; a directory that cannot be listed gives no match.
\<close>

definition has_magic :: "string \<Rightarrow> bool" where
  "has_magic s = list_ex (\<lambda>c. c = CHR ''*'' \<or> c = CHR ''?'' \<or> c = CHR ''['') s"

definition ishidden :: "string \<Rightarrow> bool" where
  "ishidden x = startswith x ''.''"

definition is_dir_node :: "node \<Rightarrow> bool" where
  "is_dir_node n = (case n of Dir _ \<Rightarrow> True | File _ \<Rightarrow> False)"

definition iterdir :: "world \<Rightarrow> string \<Rightarrow> bool \<Rightarrow> string list" where
  "iterdir w dir_part dironly =
     (case stat w (if dir_part = [] then ''.'' else dir_part) of
        Some (Dir es) \<Rightarrow> map fst (if dironly then filter (\<lambda>e. is_dir_node (snd e)) es else es)
      | _ \<Rightarrow> [])"

definition glob1 :: "world \<Rightarrow> string \<Rightarrow> string \<Rightarrow> bool \<Rightarrow> string list" where
  "glob1 w dir_part pattern dironly =
     (let names = iterdir w dir_part dironly
      in filter (\<lambda>x. fnmatch x pattern)
           (if ishidden pattern then names else filter (\<lambda>x. \<not> ishidden x) names))"

definition glob0 :: "world \<Rightarrow> string \<Rightarrow> string \<Rightarrow> string list" where
  "glob0 w dir_part last_part =
     (if last_part \<noteq> []
      then (if path_exists w (path_join dir_part last_part) then [last_part] else [])
      else (if isdir w dir_part then [last_part] else []))"

function iglob :: "world \<Rightarrow> bool \<Rightarrow> string \<Rightarrow> string list" where
  "iglob w dironly pathname =
     (if \<not> has_magic pathname then
        (if basename pathname \<noteq> []
         then (if path_exists w pathname then [pathname] else [])
         else (if isdir w (dirname pathname) then [pathname] else []))
      else if dirname pathname = [] then glob1 w [] (basename pathname) dironly
      else
        concat (map (\<lambda>dir_part.
                  map (path_join dir_part)
                    (if has_magic (basename pathname)
                     then glob1 w dir_part (basename pathname) dironly
                     else glob0 w dir_part (basename pathname)))
          (if dirname pathname \<noteq> pathname \<and> has_magic (dirname pathname)
           then iglob w True (dirname pathname)
           else [dirname pathname])))"
  by pat_completeness auto
termination
proof (relation "measure (\<lambda>(w, dironly, pathname). length pathname)")
  show "wf (measure (\<lambda>(w, dironly, pathname). length pathname))" by simp
next
  fix w :: world and dironly :: bool and pathname :: string
  assume "dirname pathname \<noteq> pathname \<and> has_magic (dirname pathname)"
  then have ne: "dirname pathname \<noteq> pathname" by simp
  have strip: "prefix (rstrip_sep s) s" for s
  proof -
    have "rev s = takeWhile (\<lambda>c. c = CHR ''/'') (rev s) @ dropWhile (\<lambda>c. c = CHR ''/'') (rev s)"
      by simp
    then have "s = rev (dropWhile (\<lambda>c. c = CHR ''/'') (rev s))
        @ rev (takeWhile (\<lambda>c. c = CHR ''/'') (rev s))"
      by (metis rev_append rev_rev_ident)
    then show ?thesis unfolding rstrip_sep_def by (metis prefixI)
  qed
  have "prefix (take n pathname) pathname" for n by (rule take_is_prefix)
  with strip have "prefix (dirname pathname) pathname"
    unfolding dirname_def path_split_def Let_def
    by (auto intro: prefix_order.trans)
  with ne have "length (dirname pathname) < length pathname"
    by (metis prefix_length_less strict_prefix_def)
  then show "((w, True, dirname pathname), (w, dironly, pathname))
      \<in> measure (\<lambda>(w, dironly, pathname). length pathname)"
    by simp
qed

declare iglob.simps [simp del]

definition glob :: "world \<Rightarrow> string \<Rightarrow> string list" where
  "glob w pathname = iglob w False pathname"

section \<open>The program\<close>

record options =
  folder :: string
  hierarchy_separator :: string
  remove_index_files :: bool
  dry_run :: bool

subsection \<open>Maildir\<close>

record Maildir =
  args :: options
  name :: string
  directory :: string
  path_list :: "string list"

text \<open>The body of the loop over the path components: the decoration of a container is cut off.\<close>

definition strip_component :: "string \<Rightarrow> string" where
  "strip_component p =
     (if startswith p KMAIL_SUBDIR_PREFIX \<and> endswith p KMAIL_SUBDIR_SUFFIX
      then slice p (length KMAIL_SUBDIR_PREFIX) (length p - length KMAIL_SUBDIR_SUFFIX)
      else p)"

definition path_components :: "world \<Rightarrow> options \<Rightarrow> string \<Rightarrow> error + string list" where
  "path_components w opts dir =
     (case relpath (cwd w) dir (folder opts) of
        Inl e \<Rightarrow> Inl e
      | Inr rel \<Rightarrow> Inr (split_sep rel))"

definition Maildir_init :: "world \<Rightarrow> options \<Rightarrow> string \<Rightarrow> error + Maildir" where
  "Maildir_init w opts dir =
     (case path_components w opts dir of
        Inl e \<Rightarrow> Inl e
      | Inr comps \<Rightarrow>
          Inr \<lparr>args = opts, name = basename dir, directory = dir,
               path_list = map strip_component comps\<rparr>)"

definition get_folder_path :: "Maildir \<Rightarrow> string" where
  "get_folder_path m =
     path_join (folder (args m))
       (HIDDEN_FILE_PREFIX @ str_join (hierarchy_separator (args m)) (path_list m))"

definition get_parent_maildir :: "Maildir \<Rightarrow> string option" where
  "get_parent_maildir m =
     (if length (path_list m) = 1 then None else Some (dirname (directory m)))"

subsection \<open>Statements\<close>

text \<open>
  Statements in sequence: an exception raised by the first ends the sequence, with the
  world as the first left it.
\<close>

definition skip :: "world \<Rightarrow> (error + unit) \<times> world" where
  "skip w = (Inr (), w)"

definition seq :: "(world \<Rightarrow> (error + unit) \<times> world) \<Rightarrow> (world \<Rightarrow> (error + unit) \<times> world)
    \<Rightarrow> world \<Rightarrow> (error + unit) \<times> world" where
  "seq f g w = (case f w of (Inl e, w1) \<Rightarrow> (Inl e, w1) | (Inr _, w1) \<Rightarrow> g w1)"

subsection \<open>FileSystemAction\<close>

record FileSystemAction =
  fs_dry_run :: bool
  fs_quiet :: bool

definition print :: "string \<Rightarrow> world \<Rightarrow> world" where
  "print line w = w\<lparr>stdout := stdout w @ [line]\<rparr>"

definition record_call :: "call \<Rightarrow> world \<Rightarrow> world" where
  "record_call c w = w\<lparr>calls := calls w @ [c]\<rparr>"

definition run :: "FileSystemAction \<Rightarrow> string \<Rightarrow> (world \<Rightarrow> (error + unit) \<times> world)
    \<Rightarrow> world \<Rightarrow> (error + unit) \<times> world" where
  "run fsa message function w =
     (let w1 = (if \<not> fs_quiet fsa then print message w else w)
      in if \<not> fs_dry_run fsa then function w1 else skip w1)"

definition rename :: "FileSystemAction \<Rightarrow> string \<Rightarrow> string \<Rightarrow> world \<Rightarrow> (error + unit) \<times> world" where
  "rename fsa src dst w0 =
     (let w = record_call (Call_rename src dst) w0 in
      if path_exists w dst
      then (Inl (Exception (''Destination '' @ dst @ '' already exists'')), w)
      else run fsa (''Moving '' @ src @ '' -> '' @ dst) (os_rename src dst) w)"

definition delete :: "FileSystemAction \<Rightarrow> string \<Rightarrow> world \<Rightarrow> (error + unit) \<times> world" where
  "delete fsa file w0 =
     (let w = record_call (Call_delete file) w0 in
      run fsa (''Removing file '' @ file) (os_remove file) w)"

definition rmdir :: "FileSystemAction \<Rightarrow> string \<Rightarrow> world \<Rightarrow> (error + unit) \<times> world" where
  "rmdir fsa dir w0 =
     (let w = record_call (Call_rmdir dir) w0 in
      run fsa (''Removing folder '' @ dir) (os_rmdir dir) w)"

subsection \<open>Kmail2Maildir\<close>

text \<open>A \<open>for\<close> loop over a list whose body may raise: the first error ends it.\<close>

fun for_each :: "('a \<Rightarrow> world \<Rightarrow> (error + unit) \<times> world) \<Rightarrow> 'a list
    \<Rightarrow> world \<Rightarrow> (error + unit) \<times> world" where
  "for_each body [] = skip"
| "for_each body (x # xs) = seq (body x) (for_each body xs)"

text \<open>A loop that extends a result list by lists that are computed in turn.\<close>

fun extend_all :: "(error + 'a list) list \<Rightarrow> error + 'a list" where
  "extend_all [] = Inr []"
| "extend_all (r # rs) =
     (case r of
        Inl e \<Rightarrow> Inl e
      | Inr xs \<Rightarrow> (case extend_all rs of Inl e \<Rightarrow> Inl e | Inr ys \<Rightarrow> Inr (xs @ ys)))"

text \<open>A list comprehension whose expression may raise.\<close>

fun map_result :: "('a \<Rightarrow> error + 'b) \<Rightarrow> 'a list \<Rightarrow> error + 'b list" where
  "map_result f [] = Inr []"
| "map_result f (x # xs) =
     (case f x of
        Inl e \<Rightarrow> Inl e
      | Inr y \<Rightarrow> (case map_result f xs of Inl e \<Rightarrow> Inl e | Inr ys \<Rightarrow> Inr (y # ys)))"

definition is_empty_dir :: "world \<Rightarrow> string \<Rightarrow> error + bool" where
  "is_empty_dir w dir =
     (case listdir w dir of Inl e \<Rightarrow> Inl e | Inr names \<Rightarrow> Inr (names = []))"

definition is_maildir :: "world \<Rightarrow> string \<Rightarrow> bool" where
  "is_maildir w dir =
     (let dirs_exist = map (\<lambda>d. isdir w (path_join dir d)) MAILDIR_SPECIAL_DIRS
      in list_all id dirs_exist)"

text \<open>
  The recursion of the walk is bounded by the interpreter: the first argument is the number
  of nested calls still allowed, and the walk raises \<open>RecursionError\<close> when none is left.
\<close>

fun get_subfolders_containers_recursive :: "nat \<Rightarrow> world \<Rightarrow> string \<Rightarrow> error + string list" where
  "get_subfolders_containers_recursive 0 w dir = Inl RecursionError"
| "get_subfolders_containers_recursive (Suc n) w dir =
     (let directories = glob w (path_join dir (KMAIL_SUBDIR_PREFIX @ ''*'' @ KMAIL_SUBDIR_SUFFIX));
          maildir_subdirectory_containers = filter (isdir w) directories
      in extend_all
           (Inr [dir] # map (get_subfolders_containers_recursive n w) maildir_subdirectory_containers))"

text \<open>\<open>[d for d in directories if d[0] != HIDDEN_FILE_PREFIX]\<close>; \<open>d[0]\<close> raises on an empty \<open>d\<close>.\<close>

fun potential_maildirs :: "string list \<Rightarrow> error + string list" where
  "potential_maildirs [] = Inr []"
| "potential_maildirs (d # ds) =
     (case d of
        [] \<Rightarrow> Inl IndexError
      | c # _ \<Rightarrow>
          (case potential_maildirs ds of
             Inl e \<Rightarrow> Inl e
           | Inr r \<Rightarrow> Inr (if [c] \<noteq> HIDDEN_FILE_PREFIX then d # r else r)))"

definition maildirs_of_container :: "world \<Rightarrow> string \<Rightarrow> error + string list" where
  "maildirs_of_container w subdir_container =
     (let files = glob w (path_join subdir_container ''*'');
          directories = filter (isdir w) files
      in case potential_maildirs directories of
           Inl e \<Rightarrow> Inl e
         | Inr potential \<Rightarrow> Inr (filter (is_maildir w) potential))"

definition get_maildirs_from_subfoldercontainers :: "world \<Rightarrow> string list \<Rightarrow> error + string list" where
  "get_maildirs_from_subfoldercontainers w subfolder_containers =
     extend_all (map (maildirs_of_container w) subfolder_containers)"

definition Kmail2Maildir_remove_index_files :: "FileSystemAction \<Rightarrow> Maildir
    \<Rightarrow> world \<Rightarrow> (error + unit) \<times> world" where
  "Kmail2Maildir_remove_index_files fsa m w =
     (let index_file_glob = HIDDEN_FILE_PREFIX @ name m @ ''.index*'';
          index_files = glob w (path_join (dirname (directory m)) index_file_glob)
      in for_each (delete fsa) index_files w)"

text \<open>\<open>maildirs.sort(key=..., reverse=True)\<close>: descending, equal keys in their former order.\<close>

definition sort_reverse :: "('a \<Rightarrow> string) \<Rightarrow> 'a list \<Rightarrow> 'a list" where
  "sort_reverse key xs = rev (sort_key key (rev xs))"

text \<open>
  The last statement of the loop over the sorted maildirs: the parent container is removed
  when there is one and it is empty now.
\<close>

definition remove_empty_parent :: "FileSystemAction \<Rightarrow> string option
    \<Rightarrow> world \<Rightarrow> (error + unit) \<times> world" where
  "remove_empty_parent fsa parent_maildir w =
     (case parent_maildir of
        None \<Rightarrow> skip w
      | Some parent \<Rightarrow>
          if parent = [] then skip w
          else (case is_empty_dir w parent of
                  Inl e \<Rightarrow> (Inl e, w)
                | Inr no_entries \<Rightarrow> if no_entries then rmdir fsa parent w else skip w))"

text \<open>The body of the loop over the sorted maildirs.\<close>

definition move_maildir :: "options \<Rightarrow> FileSystemAction \<Rightarrow> Maildir
    \<Rightarrow> world \<Rightarrow> (error + unit) \<times> world" where
  "move_maildir opts fsa m =
     seq (rename fsa (directory m) (get_folder_path m))
       (let parent_maildir = get_parent_maildir m in
        seq (if remove_index_files opts then Kmail2Maildir_remove_index_files fsa m else skip)
          (remove_empty_parent fsa parent_maildir))"

text \<open>The end of \<open>move_kmail_folders\<close>: the inbox goes to the base folder.\<close>

definition move_inbox :: "options \<Rightarrow> FileSystemAction \<Rightarrow> world \<Rightarrow> (error + unit) \<times> world" where
  "move_inbox opts fsa =
     (let kmail_inbox = path_join (folder opts) (HIDDEN_FILE_PREFIX @ ''inbox'') in
      seq (for_each
             (\<lambda>maildir_dir. rename fsa (path_join kmail_inbox maildir_dir)
                               (path_join (folder opts) maildir_dir))
             MAILDIR_SPECIAL_DIRS)
        (rmdir fsa kmail_inbox))"

text \<open>The discovery and the sort at the start of \<open>move_kmail_folders\<close>.\<close>

definition sorted_maildirs :: "options \<Rightarrow> world \<Rightarrow> error + Maildir list" where
  "sorted_maildirs opts w =
     (case get_subfolders_containers_recursive (recursion_limit w) w (folder opts) of
        Inl e \<Rightarrow> Inl e
      | Inr subdir_containers \<Rightarrow>
          (case get_maildirs_from_subfoldercontainers w subdir_containers of
             Inl e \<Rightarrow> Inl e
           | Inr maildirs_paths \<Rightarrow>
               (case map_result (Maildir_init w opts) maildirs_paths of
                  Inl e \<Rightarrow> Inl e
                | Inr maildirs \<Rightarrow> Inr (sort_reverse get_folder_path maildirs))))"

definition move_kmail_folders :: "options \<Rightarrow> FileSystemAction \<Rightarrow> world \<Rightarrow> (error + unit) \<times> world" where
  "move_kmail_folders opts fsa w =
     (case sorted_maildirs opts w of
        Inl e \<Rightarrow> (Inl e, w)
      | Inr maildirs \<Rightarrow> seq (for_each (move_maildir opts fsa) maildirs) (move_inbox opts fsa) w)"

subsection \<open>The entry point\<close>

definition kmail2maildir :: "options \<Rightarrow> world \<Rightarrow> (error + unit) \<times> world" where
  "kmail2maildir opts =
     seq (if \<not> dry_run opts
          then (\<lambda>w. move_kmail_folders opts \<lparr>fs_dry_run = True, fs_quiet = True\<rparr>
                      (print ''Checking if everything should work'' w))
          else skip)
       (move_kmail_folders opts \<lparr>fs_dry_run = dry_run opts, fs_quiet = False\<rparr>)"

section \<open>Example trees\<close>

definition maildir_node :: node where
  "maildir_node = Dir [(''cur'', Dir []), (''new'', Dir []), (''tmp'', Dir [])]"

text \<open>
  A mailbox \<open>/mail\<close> with a folder \<open>A.B\<close> at the top and a folder \<open>B\<close> below the
  container of \<open>A\<close>.
\<close>

definition collision_world :: world where
  "collision_world =
     \<lparr>tree = Dir [(''mail'', Dir [(''A.B'', maildir_node),
                                 (''.A.directory'', Dir [(''B'', maildir_node)])])],
      cwd = ''/'', recursion_limit = 1000, stdout = [], calls = []\<rparr>"

definition mail_options :: options where
  "mail_options = \<lparr>folder = ''/mail'', hierarchy_separator = ''.'',
                    remove_index_files = False, dry_run = False\<rparr>"

definition validation_pass :: FileSystemAction where
  "validation_pass = \<lparr>fs_dry_run = True, fs_quiet = True\<rparr>"

definition real_pass :: FileSystemAction where
  "real_pass = \<lparr>fs_dry_run = False, fs_quiet = False\<rparr>"

definition collision_maildirs :: "Maildir list" where
  "collision_maildirs =
     [\<lparr>args = mail_options, name = ''A.B'', directory = ''/mail/A.B'', path_list = [''A.B'']\<rparr>,
      \<lparr>args = mail_options, name = ''B'', directory = ''/mail/.A.directory/B'',
        path_list = [''A'', ''B'']\<rparr>]"

text \<open>
  A mailbox \<open>/mail\<close> with the folders \<open>Archive\<close>, \<open>Archive/Projects\<close> and
  \<open>Archive/Projects/Old\<close>, their index files, and the inbox.
\<close>

definition archive_world :: world where
  "archive_world =
     \<lparr>tree = Dir [(''mail'', Dir
         [(''Archive'', maildir_node),
          (''.Archive.index'', File ''index''),
          (''.Archive.directory'', Dir
             [(''Projects'', maildir_node),
              (''.Projects.index'', File ''index''),
              (''.Projects.index.ids'', File ''ids''),
              (''.Projects.directory'', Dir
                 [(''Old'', maildir_node),
                  (''.Old.index'', File ''index'')])]),
          (''.inbox'', maildir_node)])],
      cwd = ''/'', recursion_limit = 1000, stdout = [], calls = []\<rparr>"

definition archive_options :: options where
  "archive_options = \<lparr>folder = ''/mail'', hierarchy_separator = ''.'',
                       remove_index_files = True, dry_run = False\<rparr>"

definition archive_maildirs :: "Maildir list" where
  "archive_maildirs =
     [\<lparr>args = archive_options, name = ''Old'',
        directory = ''/mail/.Archive.directory/.Projects.directory/Old'',
        path_list = [''Archive'', ''Projects'', ''Old'']\<rparr>,
      \<lparr>args = archive_options, name = ''Projects'',
        directory = ''/mail/.Archive.directory/Projects'',
        path_list = [''Archive'', ''Projects'']\<rparr>,
      \<lparr>args = archive_options, name = ''Archive'', directory = ''/mail/Archive'',
        path_list = [''Archive'']\<rparr>]"

definition archive_dry_calls :: "call list" where
  "archive_dry_calls =
     [Call_rename ''/mail/.Archive.directory/.Projects.directory/Old'' ''/mail/.Archive.Projects.Old'',
      Call_delete ''/mail/.Archive.directory/.Projects.directory/.Old.index'',
      Call_rename ''/mail/.Archive.directory/Projects'' ''/mail/.Archive.Projects'',
      Call_delete ''/mail/.Archive.directory/.Projects.index'',
      Call_delete ''/mail/.Archive.directory/.Projects.index.ids'',
      Call_rename ''/mail/Archive'' ''/mail/.Archive'',
      Call_delete ''/mail/.Archive.index'',
      Call_rename ''/mail/.inbox/cur'' ''/mail/cur'',
      Call_rename ''/mail/.inbox/new'' ''/mail/new'',
      Call_rename ''/mail/.inbox/tmp'' ''/mail/tmp'',
      Call_rmdir ''/mail/.inbox'']"

definition archive_real_calls :: "call list" where
  "archive_real_calls =
     [Call_rename ''/mail/.Archive.directory/.Projects.directory/Old'' ''/mail/.Archive.Projects.Old'',
      Call_delete ''/mail/.Archive.directory/.Projects.directory/.Old.index'',
      Call_rmdir ''/mail/.Archive.directory/.Projects.directory'',
      Call_rename ''/mail/.Archive.directory/Projects'' ''/mail/.Archive.Projects'',
      Call_delete ''/mail/.Archive.directory/.Projects.index'',
      Call_delete ''/mail/.Archive.directory/.Projects.index.ids'',
      Call_rmdir ''/mail/.Archive.directory'',
      Call_rename ''/mail/Archive'' ''/mail/.Archive'',
      Call_delete ''/mail/.Archive.index'',
      Call_rename ''/mail/.inbox/cur'' ''/mail/cur'',
      Call_rename ''/mail/.inbox/new'' ''/mail/new'',
      Call_rename ''/mail/.inbox/tmp'' ''/mail/tmp'',
      Call_rmdir ''/mail/.inbox'']"

text \<open>A mailbox in the directory \<open>.mail\<close> of the working directory, with one folder \<open>Foo\<close>.\<close>

definition hidden_root_world :: world where
  "hidden_root_world =
     \<lparr>tree = Dir [(''.mail'', Dir [(''Foo'', maildir_node)])],
      cwd = ''/'', recursion_limit = 1000, stdout = [], calls = []\<rparr>"

text \<open>
  A mailbox path with a wildcard character: the directory \<open>*\<close> of \<open>/mail\<close>, beside a
  directory \<open>A\<close> that the pattern \<open>/mail/*\<close> matches as well.
\<close>

definition wildcard_world :: world where
  "wildcard_world =
     \<lparr>tree = Dir [(''mail'', Dir
         [(''*'', Dir [(''....directory'', Dir [(''.A.directory'', Dir [(''X'', maildir_node)])])]),
          (''A'', Dir [(''X'', maildir_node)])])],
      cwd = ''/'', recursion_limit = 1000, stdout = [], calls = []\<rparr>"

definition wildcard_options :: options where
  "wildcard_options = \<lparr>folder = ''/mail/*'', hierarchy_separator = '':'',
                        remove_index_files = False, dry_run = False\<rparr>"

definition wildcard_maildirs :: "Maildir list" where
  "wildcard_maildirs =
     [\<lparr>args = wildcard_options, name = ''X'', directory = ''/mail/A/X'',
        path_list = [''..'', ''A'', ''X'']\<rparr>,
      \<lparr>args = wildcard_options, name = ''X'',
        directory = ''/mail/*/....directory/.A.directory/X'',
        path_list = [''..'', ''A'', ''X'']\<rparr>]"

section \<open>Notions used in the statements\<close>

text \<open>Two worlds with the same filesystem: they may differ in what was printed and called.\<close>

definition same_fs :: "world \<Rightarrow> world \<Rightarrow> bool" where
  "same_fs w w' = (tree w' = tree w \<and> cwd w' = cwd w \<and> recursion_limit w' = recursion_limit w)"

definition keeps_fs :: "(world \<Rightarrow> (error + unit) \<times> world) \<Rightarrow> bool" where
  "keeps_fs f = (\<forall>w. same_fs w (snd (f w)))"

text \<open>The calls of the gateway that a run makes, read off the record of calls.\<close>

fun is_rename :: "call \<Rightarrow> bool" where
  "is_rename (Call_rename src dst) = True"
| "is_rename (Call_delete file) = False"
| "is_rename (Call_rmdir dir) = False"

definition any_call :: "call \<Rightarrow> bool" where
  "any_call c = True"

definition rename_call :: "Maildir \<Rightarrow> call" where
  "rename_call m = Call_rename (directory m) (get_folder_path m)"

text \<open>
  \<open>makes P cs f\<close>: the calls that \<open>f\<close> adds to the record are, as far as they satisfy \<open>P\<close>,
  the first calls of \<open>cs\<close> in this order, and all of \<open>cs\<close> when \<open>f\<close> returns normally.
\<close>

definition makes :: "(call \<Rightarrow> bool) \<Rightarrow> call list \<Rightarrow> (world \<Rightarrow> (error + unit) \<times> world) \<Rightarrow> bool" where
  "makes P cs f =
     (\<forall>w. \<exists>made. calls (snd (f w)) = calls w @ made \<and> prefix (filter P made) cs
            \<and> (fst (f w) = Inr () \<longrightarrow> filter P made = cs))"

text \<open>The relocation of the inbox as the specification describes it.\<close>

definition inbox_relocation_calls :: "options \<Rightarrow> call list" where
  "inbox_relocation_calls opts =
     [Call_rename (path_join (path_join (folder opts) ''.inbox'') ''cur'') (path_join (folder opts) ''cur''),
      Call_rename (path_join (path_join (folder opts) ''.inbox'') ''new'') (path_join (folder opts) ''new''),
      Call_rename (path_join (path_join (folder opts) ''.inbox'') ''tmp'') (path_join (folder opts) ''tmp''),
      Call_rmdir (path_join (folder opts) ''.inbox'')]"

text \<open>
  The names of a filesystem: not empty and without the separator. A tree is well formed
  when all its names are, and plain when none of its names holds a wildcard character.
\<close>

definition wf_name :: "string \<Rightarrow> bool" where
  "wf_name x = (x \<noteq> [] \<and> CHR ''/'' \<notin> set x)"

fun all_names :: "(string \<Rightarrow> bool) \<Rightarrow> node \<Rightarrow> bool" where
  "all_names P (File x) = True"
| "all_names P (Dir es) = list_all (\<lambda>e. P (fst e) \<and> all_names P (snd e)) es"

definition wf_world :: "world \<Rightarrow> bool" where
  "wf_world w = all_names wf_name (tree w)"





text \<open>
  The directory part that \<open>glob\<close> splits off a pattern joined to \<open>a\<close>, and the path of
  the directory reached from a root through the names \<open>ns\<close>, as discovery builds it.
\<close>

definition glob_dir :: "string \<Rightarrow> string" where
  "glob_dir a = fst (path_split (path_join a ''*''))"


section \<open>Stripping of the container decoration\<close>

lemma strip_component_slice:
  "strip_component p =
     (if startswith p KMAIL_SUBDIR_PREFIX \<and> endswith p KMAIL_SUBDIR_SUFFIX
      then drop (length KMAIL_SUBDIR_PREFIX) (take (length p - length KMAIL_SUBDIR_SUFFIX) p)
      else p)"
  by (simp add: strip_component_def slice_def drop_take)

lemma strip_component_token:
  "strip_component (KMAIL_SUBDIR_PREFIX @ token @ KMAIL_SUBDIR_SUFFIX) = token"
  by (simp add: strip_component_def slice_def startswith_def endswith_def)

text \<open>
  Claim C6. The logical segments of a folder are its path components relative to the
  root, one segment per component. A component that starts with the container prefix and
  ends with the container suffix gives the component without its first
  \<open>length KMAIL_SUBDIR_PREFIX\<close> and its last \<open>length KMAIL_SUBDIR_SUFFIX\<close> characters; for
  a component \<open>prefix @ token @ suffix\<close> that is \<open>token\<close>. Every other component, so also
  one that matches neither condition, is kept as it is.
\<close>

theorem stripping_correctness:
  assumes "Maildir_init w opts dir = Inr m"
    and "path_components w opts dir = Inr comps"
    and "i < length comps"
  shows "length (path_list m) = length comps
     \<and> (startswith (comps ! i) KMAIL_SUBDIR_PREFIX \<and> endswith (comps ! i) KMAIL_SUBDIR_SUFFIX
          \<longrightarrow> path_list m ! i =
                drop (length KMAIL_SUBDIR_PREFIX)
                  (take (length (comps ! i) - length KMAIL_SUBDIR_SUFFIX) (comps ! i)))
     \<and> (\<forall>token. comps ! i = KMAIL_SUBDIR_PREFIX @ token @ KMAIL_SUBDIR_SUFFIX
          \<longrightarrow> path_list m ! i = token)
     \<and> (\<not> (startswith (comps ! i) KMAIL_SUBDIR_PREFIX \<and> endswith (comps ! i) KMAIL_SUBDIR_SUFFIX)
          \<longrightarrow> path_list m ! i = comps ! i)"
proof -
  from assms(1,2) have pl: "path_list m = map strip_component comps"
    by (auto simp: Maildir_init_def split: sum.splits)
  with assms(3) have nth: "path_list m ! i = strip_component (comps ! i)"
    by simp
  have len: "length (path_list m) = length comps"
    using pl by simp
  have cut: "startswith (comps ! i) KMAIL_SUBDIR_PREFIX \<and> endswith (comps ! i) KMAIL_SUBDIR_SUFFIX
      \<longrightarrow> path_list m ! i =
            drop (length KMAIL_SUBDIR_PREFIX)
              (take (length (comps ! i) - length KMAIL_SUBDIR_SUFFIX) (comps ! i))"
    unfolding nth by (subst strip_component_slice) simp
  have tok: "\<forall>token. comps ! i = KMAIL_SUBDIR_PREFIX @ token @ KMAIL_SUBDIR_SUFFIX
      \<longrightarrow> path_list m ! i = token"
    unfolding nth using strip_component_token by auto
  have keep: "\<not> (startswith (comps ! i) KMAIL_SUBDIR_PREFIX \<and> endswith (comps ! i) KMAIL_SUBDIR_SUFFIX)
      \<longrightarrow> path_list m ! i = comps ! i"
    unfolding nth by (simp add: strip_component_def)
  from len cut tok keep show ?thesis by blast
qed

theorem stripping_correctness_witness:
  "Maildir_init collision_world mail_options ''/mail/.A.directory/B''
      = Inr \<lparr>args = mail_options, name = ''B'', directory = ''/mail/.A.directory/B'',
              path_list = [''A'', ''B'']\<rparr>
   \<and> path_components collision_world mail_options ''/mail/.A.directory/B''
      = Inr [''.A.directory'', ''B'']
   \<and> (0::nat) < length [''.A.directory'', ''B'']
   \<and> [''A'', ''B''] ! 0 = drop 1 (take (length ''.A.directory'' - 10) ''.A.directory'')"
proof -
  have h1: "Maildir_init collision_world mail_options ''/mail/.A.directory/B''
      = Inr \<lparr>args = mail_options, name = ''B'', directory = ''/mail/.A.directory/B'',
              path_list = [''A'', ''B'']\<rparr>"
    by code_simp
  have h2: "path_components collision_world mail_options ''/mail/.A.directory/B''
      = Inr [''.A.directory'', ''B'']"
    by code_simp
  have h3: "0 < length [''.A.directory'', ''B'']" by simp
  from stripping_correctness [OF h1 h2 h3] h1 h2 show ?thesis by simp
qed

section \<open>A dry run leaves the filesystem alone\<close>

lemma same_fs_refl: "same_fs w w"
  by (simp add: same_fs_def)

lemma same_fs_trans: "same_fs w w1 \<Longrightarrow> same_fs w1 w2 \<Longrightarrow> same_fs w w2"
  by (simp add: same_fs_def)

lemma same_fs_print: "same_fs w (print l w)"
  by (simp add: same_fs_def print_def)

lemma same_fs_record_call: "same_fs w (record_call c w)"
  by (simp add: same_fs_def record_call_def)

lemma keeps_fs_skip: "keeps_fs skip"
  by (simp add: keeps_fs_def skip_def same_fs_refl)

lemma keeps_fs_seq:
  assumes "keeps_fs f" and "keeps_fs g"
  shows "keeps_fs (seq f g)"
  unfolding keeps_fs_def
proof
  fix w
  obtain r w1 where fw: "f w = (r, w1)" by (cases "f w")
  from assms(1) fw have s1: "same_fs w w1" by (auto simp: keeps_fs_def dest: spec [of _ w])
  show "same_fs w (snd (seq f g w))"
  proof (cases r)
    case (Inl e)
    with fw s1 show ?thesis by (simp add: seq_def)
  next
    case (Inr u)
    from assms(2) have "same_fs w1 (snd (g w1))" by (simp add: keeps_fs_def)
    with s1 have "same_fs w (snd (g w1))" by (rule same_fs_trans)
    with fw Inr show ?thesis by (simp add: seq_def)
  qed
qed

lemma keeps_fs_for_each:
  assumes "\<And>x. keeps_fs (body x)"
  shows "keeps_fs (for_each body xs)"
  by (induction xs) (simp_all add: keeps_fs_skip keeps_fs_seq assms)

lemma keeps_fs_run:
  "fs_dry_run fsa \<Longrightarrow> same_fs w (snd (run fsa msg f w))"
  by (simp add: run_def Let_def skip_def same_fs_print same_fs_refl)

lemma keeps_fs_rename: "fs_dry_run fsa \<Longrightarrow> keeps_fs (rename fsa src dst)"
  unfolding keeps_fs_def rename_def Let_def
  by (auto intro: same_fs_trans [OF same_fs_record_call] keeps_fs_run same_fs_record_call)

lemma keeps_fs_delete: "fs_dry_run fsa \<Longrightarrow> keeps_fs (delete fsa file)"
  unfolding keeps_fs_def delete_def Let_def
  by (auto intro: same_fs_trans [OF same_fs_record_call] keeps_fs_run)

lemma keeps_fs_rmdir: "fs_dry_run fsa \<Longrightarrow> keeps_fs (rmdir fsa dir)"
  unfolding keeps_fs_def rmdir_def Let_def
  by (auto intro: same_fs_trans [OF same_fs_record_call] keeps_fs_run)

lemma keeps_fs_remove_index_files:
  "fs_dry_run fsa \<Longrightarrow> keeps_fs (\<lambda>w. Kmail2Maildir_remove_index_files fsa m w)"
  unfolding keeps_fs_def Kmail2Maildir_remove_index_files_def Let_def
  using keeps_fs_for_each [of "delete fsa"] keeps_fs_delete [of fsa]
  by (simp add: keeps_fs_def)

lemma keeps_fs_remove_empty_parent:
  "fs_dry_run fsa \<Longrightarrow> keeps_fs (remove_empty_parent fsa parent)"
  unfolding keeps_fs_def remove_empty_parent_def
  using keeps_fs_rmdir [of fsa]
  by (auto simp: keeps_fs_def skip_def same_fs_refl split: option.splits sum.splits)

lemma keeps_fs_move_maildir:
  "fs_dry_run fsa \<Longrightarrow> keeps_fs (move_maildir opts fsa m)"
  unfolding move_maildir_def Let_def
  by (intro keeps_fs_seq keeps_fs_rename keeps_fs_remove_empty_parent)
     (simp_all add: keeps_fs_skip keeps_fs_remove_index_files [simplified])

lemma keeps_fs_move_inbox:
  "fs_dry_run fsa \<Longrightarrow> keeps_fs (move_inbox opts fsa)"
  unfolding move_inbox_def Let_def
  by (intro keeps_fs_seq keeps_fs_for_each keeps_fs_rename keeps_fs_rmdir)

lemma keeps_fs_move_kmail_folders:
  assumes "fs_dry_run fsa"
  shows "keeps_fs (move_kmail_folders opts fsa)"
  unfolding keeps_fs_def
proof
  fix w
  show "same_fs w (snd (move_kmail_folders opts fsa w))"
  proof (cases "sorted_maildirs opts w")
    case (Inl e)
    then show ?thesis by (simp add: move_kmail_folders_def same_fs_refl)
  next
    case (Inr ms)
    have "keeps_fs (seq (for_each (move_maildir opts fsa) ms) (move_inbox opts fsa))"
      by (intro keeps_fs_seq keeps_fs_for_each keeps_fs_move_maildir keeps_fs_move_inbox assms)
    with Inr show ?thesis by (simp add: move_kmail_folders_def keeps_fs_def)
  qed
qed

text \<open>
  Claim C3. When the dry-run flag is set, the tree (and the working directory) after the
  invocation is the tree before it, whether the invocation returns or raises.
\<close>

theorem dry_run_non_mutation:
  assumes "dry_run opts"
  shows "tree (snd (kmail2maildir opts w)) = tree w \<and> cwd (snd (kmail2maildir opts w)) = cwd w"
proof -
  have "keeps_fs (kmail2maildir opts)"
    unfolding kmail2maildir_def using assms
    by (intro keeps_fs_seq keeps_fs_move_kmail_folders) (simp_all add: keeps_fs_skip)
  then show ?thesis by (simp add: keeps_fs_def same_fs_def)
qed

theorem dry_run_non_mutation_witness:
  "dry_run (mail_options\<lparr>dry_run := True\<rparr>)
   \<and> fst (kmail2maildir (mail_options\<lparr>dry_run := True\<rparr>) collision_world) = Inr ()
   \<and> tree (snd (kmail2maildir (mail_options\<lparr>dry_run := True\<rparr>) collision_world))
       = tree collision_world"
proof -
  have h: "dry_run (mail_options\<lparr>dry_run := True\<rparr>)" by simp
  have ok: "fst (kmail2maildir (mail_options\<lparr>dry_run := True\<rparr>) collision_world) = Inr ()"
    by code_simp
  from dry_run_non_mutation [OF h, of collision_world] h ok show ?thesis by simp
qed

section \<open>The gateway in a dry run\<close>

lemma path_exists_same_fs: "same_fs w w' \<Longrightarrow> path_exists w' p = path_exists w p"
  by (simp add: same_fs_def path_exists_def stat_def resolve_def)

lemma stat_same_fs: "same_fs w w' \<Longrightarrow> stat w' p = stat w p"
  by (simp add: same_fs_def stat_def resolve_def)

lemma run_dry_ok: "fs_dry_run fsa \<Longrightarrow> fst (run fsa msg f w) = Inr ()"
  by (simp add: run_def Let_def skip_def)

lemma rename_dry_result:
  "fs_dry_run fsa \<Longrightarrow> (fst (rename fsa src dst w) = Inr ()) = (\<not> path_exists w dst)"
  by (simp add: rename_def Let_def run_dry_ok path_exists_same_fs [OF same_fs_record_call])

lemma delete_dry_result: "fs_dry_run fsa \<Longrightarrow> fst (delete fsa file w) = Inr ()"
  by (simp add: delete_def Let_def run_dry_ok)

lemma rmdir_dry_result: "fs_dry_run fsa \<Longrightarrow> fst (rmdir fsa dir w) = Inr ()"
  by (simp add: rmdir_def Let_def run_dry_ok)

lemma seq_ok:
  assumes "fst (f w) = Inr ()" and "fst (g (snd (f w))) = Inr ()"
  shows "fst (seq f g w) = Inr ()"
  using assms by (cases "f w") (simp add: seq_def)

lemma for_each_dry_rename_ok:
  assumes "fs_dry_run fsa"
    and "list_all (\<lambda>d. \<not> path_exists w (dst d)) ds"
  shows "fst (for_each (\<lambda>d. rename fsa (src d) (dst d)) ds w) = Inr ()"
  using assms(2)
proof (induction ds arbitrary: w)
  case Nil
  show ?case by (simp add: skip_def)
next
  case (Cons d ds)
  let ?w1 = "snd (rename fsa (src d) (dst d) w)"
  from Cons.prems have first: "fst (rename fsa (src d) (dst d) w) = Inr ()"
    by (simp add: rename_dry_result [OF assms(1)])
  have "same_fs w ?w1"
    using keeps_fs_rename [OF assms(1), of "src d" "dst d"] by (simp add: keeps_fs_def)
  with Cons.prems have "list_all (\<lambda>d. \<not> path_exists ?w1 (dst d)) ds"
    by (simp add: path_exists_same_fs)
  then have rest: "fst (for_each (\<lambda>d. rename fsa (src d) (dst d)) ds ?w1) = Inr ()"
    by (rule Cons.IH)
  from first rest show ?case by (simp add: seq_ok)
qed

lemma move_inbox_dry_ok:
  assumes "fs_dry_run fsa"
    and "list_all (\<lambda>d. \<not> path_exists w (path_join (folder opts) d)) MAILDIR_SPECIAL_DIRS"
  shows "fst (move_inbox opts fsa w) = Inr ()"
  unfolding move_inbox_def Let_def
  by (rule seq_ok, rule for_each_dry_rename_ok [OF assms]) (rule rmdir_dry_result [OF assms(1)])

text \<open>
  Claim C9. In a dry-run pass over a tree without the hidden inbox directory and without
  \<open>cur\<close>, \<open>new\<close> and \<open>tmp\<close> at the root, the inbox relocation that follows a completed
  loop raises nothing, so the pass completes. In dry-run mode \<open>rename\<close> returns normally
  exactly when the destination does not exist, whatever the source is, and \<open>delete\<close> and
  \<open>rmdir\<close> return normally for every argument.
\<close>

theorem dry_run_inbox_step_never_raises:
  assumes "fs_dry_run fsa"
    and "list_all (\<lambda>d. \<not> path_exists w (path_join (folder opts) d)) MAILDIR_SPECIAL_DIRS"
    and "\<not> path_exists w (path_join (folder opts) (HIDDEN_FILE_PREFIX @ ''inbox''))"
    and "sorted_maildirs opts w = Inr ms"
    and "for_each (move_maildir opts fsa) ms w = (Inr (), w1)"
  shows "fst (move_inbox opts fsa w1) = Inr ()
     \<and> fst (move_kmail_folders opts fsa w) = Inr ()
     \<and> (fst (rename fsa src dst v) = Inr ()) = (\<not> path_exists v dst)
     \<and> fst (delete fsa file v) = Inr ()
     \<and> fst (rmdir fsa dir v) = Inr ()"
proof -
  have "keeps_fs (for_each (move_maildir opts fsa) ms)"
    by (intro keeps_fs_for_each keeps_fs_move_maildir assms(1))
  with assms(5) have "same_fs w w1"
    by (auto simp: keeps_fs_def dest: spec [of _ w])
  with assms(2) have "list_all (\<lambda>d. \<not> path_exists w1 (path_join (folder opts) d)) MAILDIR_SPECIAL_DIRS"
    by (simp add: path_exists_same_fs)
  with assms(1) have inbox: "fst (move_inbox opts fsa w1) = Inr ()"
    by (rule move_inbox_dry_ok)
  with assms(4,5) have whole: "fst (move_kmail_folders opts fsa w) = Inr ()"
    by (simp add: move_kmail_folders_def seq_def)
  from inbox whole show ?thesis
    by (simp add: rename_dry_result delete_dry_result rmdir_dry_result assms(1))
qed

theorem dry_run_inbox_step_never_raises_witness:
  "fs_dry_run validation_pass
   \<and> list_all (\<lambda>d. \<not> path_exists collision_world (path_join (folder mail_options) d))
        MAILDIR_SPECIAL_DIRS
   \<and> \<not> path_exists collision_world (path_join (folder mail_options) (HIDDEN_FILE_PREFIX @ ''inbox''))
   \<and> sorted_maildirs mail_options collision_world = Inr collision_maildirs
   \<and> for_each (move_maildir mail_options validation_pass) collision_maildirs collision_world
       = (Inr (), collision_world\<lparr>calls := [Call_rename ''/mail/A.B'' ''/mail/.A.B'',
             Call_rename ''/mail/.A.directory/B'' ''/mail/.A.B'']\<rparr>)
   \<and> fst (move_kmail_folders mail_options validation_pass collision_world) = Inr ()"
proof -
  have h1: "fs_dry_run validation_pass" by (simp add: validation_pass_def)
  have h2: "list_all (\<lambda>d. \<not> path_exists collision_world (path_join (folder mail_options) d))
        MAILDIR_SPECIAL_DIRS"
    by code_simp
  have h3: "\<not> path_exists collision_world
        (path_join (folder mail_options) (HIDDEN_FILE_PREFIX @ ''inbox''))"
    by code_simp
  have h4: "sorted_maildirs mail_options collision_world = Inr collision_maildirs"
    by code_simp
  have h5: "for_each (move_maildir mail_options validation_pass) collision_maildirs collision_world
       = (Inr (), collision_world\<lparr>calls := [Call_rename ''/mail/A.B'' ''/mail/.A.B'',
             Call_rename ''/mail/.A.directory/B'' ''/mail/.A.B'']\<rparr>)"
    by code_simp
  from dry_run_inbox_step_never_raises [OF h1 h2 h3 h4 h5] h1 h2 h3 h4 h5
  show ?thesis by simp
qed

section \<open>The checks of the gateway\<close>

lemma run_real: "\<not> fs_dry_run fsa \<Longrightarrow> run fsa msg f w = f (if fs_quiet fsa then w else print msg w)"
  by (simp add: run_def Let_def)

lemma stat_print: "stat (print l w) p = stat w p"
  by (rule stat_same_fs) (rule same_fs_print)

lemma stat_record_call: "stat (record_call c w) p = stat w p"
  by (rule stat_same_fs) (rule same_fs_record_call)

lemma delete_real_missing:
  "\<not> fs_dry_run fsa \<Longrightarrow> \<not> path_exists w file \<Longrightarrow> fst (delete fsa file w) = Inl (OSError ENOENT)"
  by (simp add: delete_def Let_def run_real os_remove_def path_exists_def
      stat_print stat_record_call)

lemma rmdir_real_missing:
  "\<not> fs_dry_run fsa \<Longrightarrow> \<not> path_exists w dir \<Longrightarrow> fst (rmdir fsa dir w) = Inl (OSError ENOENT)"
  by (simp add: rmdir_def Let_def run_real os_rmdir_def path_exists_def
      stat_print stat_record_call)

lemma rename_destination_exists:
  "path_exists w dst \<Longrightarrow>
     rename fsa src dst w
       = (Inl (Exception (''Destination '' @ dst @ '' already exists'')),
          record_call (Call_rename src dst) w)"
  by (simp add: rename_def Let_def path_exists_same_fs [OF same_fs_record_call])

text \<open>
  Claim C5 fails for \<open>delete\<close> and \<open>rmdir\<close>: in dry-run mode both return normally for a
  path that does not exist.
\<close>

theorem delete_rmdir_check_nothing_counterexample:
  "\<not> path_exists collision_world ''/mail/Missing''
   \<and> delete validation_pass ''/mail/Missing'' collision_world
       = (Inr (), collision_world\<lparr>calls := [Call_delete ''/mail/Missing'']\<rparr>)
   \<and> rmdir validation_pass ''/mail/Missing'' collision_world
       = (Inr (), collision_world\<lparr>calls := [Call_rmdir ''/mail/Missing'']\<rparr>)"
  by code_simp

text \<open>
  Claim C5, amended. \<open>rename\<close> checks before it executes, in a dry run as in a real one,
  that the destination does not exist, and raises if it does, leaving the filesystem as
  it is. \<open>delete\<close> and \<open>rmdir\<close> check nothing themselves: in a dry run they return
  normally for every argument, and in a real run a missing target makes the call of the
  operating system fail.
\<close>

theorem gateway_pre_checks:
  "(path_exists w dst \<longrightarrow>
      rename fsa src dst w
        = (Inl (Exception (''Destination '' @ dst @ '' already exists'')),
           record_call (Call_rename src dst) w))
   \<and> (fs_dry_run fsa \<longrightarrow>
        (fst (rename fsa src dst w) = Inr ()) = (\<not> path_exists w dst)
        \<and> fst (delete fsa file w) = Inr ()
        \<and> fst (rmdir fsa dir w) = Inr ())
   \<and> (\<not> fs_dry_run fsa \<and> \<not> path_exists w file \<longrightarrow> fst (delete fsa file w) = Inl (OSError ENOENT))
   \<and> (\<not> fs_dry_run fsa \<and> \<not> path_exists w dir \<longrightarrow> fst (rmdir fsa dir w) = Inl (OSError ENOENT))"
  by (simp add: rename_destination_exists rename_dry_result delete_dry_result rmdir_dry_result
      delete_real_missing rmdir_real_missing)

theorem gateway_pre_checks_witness:
  "path_exists collision_world ''/mail/A.B''
   \<and> rename validation_pass ''/mail/.A.directory/B'' ''/mail/A.B'' collision_world
       = (Inl (Exception ''Destination /mail/A.B already exists''),
          record_call (Call_rename ''/mail/.A.directory/B'' ''/mail/A.B'') collision_world)
   \<and> fs_dry_run validation_pass
   \<and> fst (delete validation_pass ''/mail/Missing'' collision_world) = Inr ()
   \<and> fst (rmdir validation_pass ''/mail/Missing'' collision_world) = Inr ()
   \<and> \<not> fs_dry_run real_pass
   \<and> \<not> path_exists collision_world ''/mail/Missing''
   \<and> fst (delete real_pass ''/mail/Missing'' collision_world) = Inl (OSError ENOENT)
   \<and> fst (rmdir real_pass ''/mail/Missing'' collision_world) = Inl (OSError ENOENT)"
proof -
  have h1: "path_exists collision_world ''/mail/A.B''" by code_simp
  have h2: "fs_dry_run validation_pass" by (simp add: validation_pass_def)
  have h3: "\<not> fs_dry_run real_pass" by (simp add: real_pass_def)
  have h4: "\<not> path_exists collision_world ''/mail/Missing''" by code_simp
  from gateway_pre_checks [of collision_world "''/mail/A.B''" validation_pass
      "''/mail/.A.directory/B''" "''/mail/Missing''" "''/mail/Missing''"]
    gateway_pre_checks [of collision_world "''/mail/A.B''" real_pass
      "''/mail/.A.directory/B''" "''/mail/Missing''" "''/mail/Missing''"]
    h1 h2 h3 h4
  show ?thesis by simp
qed

section \<open>The calls of a run, in their order\<close>

lemma makes_skip: "makes P [] skip"
  by (simp add: makes_def skip_def)

lemma makes_seq:
  assumes "makes P cs f" and "makes P ds g"
  shows "makes P (cs @ ds) (seq f g)"
  unfolding makes_def
proof
  fix w
  obtain r w1 where fw: "f w = (r, w1)" by (cases "f w")
  from assms(1) fw obtain m1 where m1: "calls w1 = calls w @ m1" "prefix (filter P m1) cs"
      "r = Inr () \<longrightarrow> filter P m1 = cs"
    by (auto simp: makes_def dest!: spec [of _ w])
  show "\<exists>made. calls (snd (seq f g w)) = calls w @ made \<and> prefix (filter P made) (cs @ ds)
            \<and> (fst (seq f g w) = Inr () \<longrightarrow> filter P made = cs @ ds)"
  proof (cases r)
    case (Inl e)
    with fw m1 have "calls (snd (seq f g w)) = calls w @ m1 \<and> prefix (filter P m1) (cs @ ds)
            \<and> (fst (seq f g w) = Inr () \<longrightarrow> filter P m1 = cs @ ds)"
      by (simp add: seq_def)
    then show ?thesis by blast
  next
    case (Inr u)
    from assms(2) obtain m2 where m2: "calls (snd (g w1)) = calls w1 @ m2" "prefix (filter P m2) ds"
      "fst (g w1) = Inr () \<longrightarrow> filter P m2 = ds"
      by (auto simp: makes_def dest!: spec [of _ w1])
    from Inr m1 have c: "filter P m1 = cs" by simp
    from fw Inr m1 m2 c have "calls (snd (seq f g w)) = calls w @ (m1 @ m2)
            \<and> prefix (filter P (m1 @ m2)) (cs @ ds)
            \<and> (fst (seq f g w) = Inr () \<longrightarrow> filter P (m1 @ m2) = cs @ ds)"
      by (simp add: seq_def)
    then show ?thesis by blast
  qed
qed

lemma makes_for_each:
  assumes "\<And>x. makes P (k x) (body x)"
  shows "makes P (concat (map k xs)) (for_each body xs)"
  by (induction xs) (simp_all add: makes_skip makes_seq assms)

lemma calls_os_rename: "calls (snd (os_rename src dst w)) = calls w"
  by (simp add: os_rename_def Let_def split: option.splits node.splits list.splits)

lemma calls_os_remove: "calls (snd (os_remove file w)) = calls w"
  by (simp add: os_remove_def split: option.splits node.splits)

lemma calls_os_rmdir: "calls (snd (os_rmdir dir w)) = calls w"
  by (simp add: os_rmdir_def split: option.splits node.splits list.splits)

lemma calls_run:
  assumes "\<And>v. calls (snd (f v)) = calls v"
  shows "calls (snd (run fsa msg f w)) = calls w"
  by (simp add: run_def Let_def skip_def assms print_def)

lemma calls_rename: "calls (snd (rename fsa src dst w)) = calls w @ [Call_rename src dst]"
  by (simp add: rename_def Let_def calls_run calls_os_rename record_call_def)

lemma calls_delete: "calls (snd (delete fsa file w)) = calls w @ [Call_delete file]"
  by (simp add: delete_def Let_def calls_run calls_os_remove record_call_def)

lemma calls_rmdir: "calls (snd (rmdir fsa dir w)) = calls w @ [Call_rmdir dir]"
  by (simp add: rmdir_def Let_def calls_run calls_os_rmdir record_call_def)

lemma makes_one:
  assumes "\<And>w. calls (snd (f w)) = calls w @ [c]"
  shows "makes P (filter P [c]) f"
  unfolding makes_def
proof
  fix w
  from assms [of w] have "calls (snd (f w)) = calls w @ [c] \<and> prefix (filter P [c]) (filter P [c])
       \<and> (fst (f w) = Inr () \<longrightarrow> filter P [c] = filter P [c])"
    by simp
  then show "\<exists>made. calls (snd (f w)) = calls w @ made \<and> prefix (filter P made) (filter P [c])
       \<and> (fst (f w) = Inr () \<longrightarrow> filter P made = filter P [c])"
    by blast
qed

lemma makes_rename: "makes P (filter P [Call_rename src dst]) (rename fsa src dst)"
  by (rule makes_one) (rule calls_rename)

lemma makes_delete: "makes P (filter P [Call_delete file]) (delete fsa file)"
  by (rule makes_one) (rule calls_delete)

lemma makes_rmdir: "makes P (filter P [Call_rmdir dir]) (rmdir fsa dir)"
  by (rule makes_one) (rule calls_rmdir)

lemma makes_pointwise:
  assumes "\<And>w. \<exists>g. makes P cs g \<and> f w = g w"
  shows "makes P cs f"
  unfolding makes_def
proof
  fix w
  from assms [of w] obtain g where g: "makes P cs g" "f w = g w" by blast
  then show "\<exists>made. calls (snd (f w)) = calls w @ made \<and> prefix (filter P made) cs
       \<and> (fst (f w) = Inr () \<longrightarrow> filter P made = cs)"
    by (simp add: makes_def)
qed

lemma makes_raise: "makes P [] (\<lambda>w. (Inl e, w))"
  by (simp add: makes_def)

lemma makes_deletes: "makes is_rename [] (for_each (delete fsa) files)"
proof (induction files)
  case Nil
  show ?case by (simp add: makes_skip)
next
  case (Cons f fs)
  have "makes is_rename [] (delete fsa f)"
    using makes_delete [of is_rename f fsa] by simp
  then have "makes is_rename ([] @ []) (seq (delete fsa f) (for_each (delete fsa) fs))"
    using Cons.IH by (rule makes_seq)
  then show ?case by simp
qed

lemma makes_remove_index_files:
  "makes is_rename [] (Kmail2Maildir_remove_index_files fsa m)"
proof (rule makes_pointwise)
  fix w
  show "\<exists>g. makes is_rename [] g \<and> Kmail2Maildir_remove_index_files fsa m w = g w"
    using makes_deletes by (auto simp: Kmail2Maildir_remove_index_files_def Let_def)
qed

lemma makes_remove_empty_parent:
  "makes is_rename [] (remove_empty_parent fsa parent)"
proof (rule makes_pointwise)
  fix w
  have r: "makes is_rename [] (rmdir fsa p)" for p
    using makes_rmdir [of is_rename p fsa] by simp
  show "\<exists>g. makes is_rename [] g \<and> remove_empty_parent fsa parent w = g w"
  proof (cases parent)
    case None
    then have "remove_empty_parent fsa parent w = skip w" by (simp add: remove_empty_parent_def)
    with makes_skip show ?thesis by blast
  next
    case (Some p)
    show ?thesis
    proof (cases "p = []")
      case True
      with Some have "remove_empty_parent fsa parent w = skip w" by (simp add: remove_empty_parent_def)
      with makes_skip show ?thesis by blast
    next
      case False
      show ?thesis
      proof (cases "is_empty_dir w p")
        case (Inl e)
        with Some False have "remove_empty_parent fsa parent w = (\<lambda>w. (Inl e, w)) w"
          by (simp add: remove_empty_parent_def)
        with makes_raise show ?thesis by blast
      next
        case (Inr b)
        with Some False have "remove_empty_parent fsa parent w = (if b then rmdir fsa p else skip) w"
          by (simp add: remove_empty_parent_def)
        moreover have "makes is_rename [] (if b then rmdir fsa p else skip)"
          by (simp add: r makes_skip)
        ultimately show ?thesis by blast
      qed
    qed
  qed
qed

lemma makes_move_maildir:
  "makes is_rename [rename_call m] (move_maildir opts fsa m)"
proof -
  have "makes is_rename (filter is_rename [Call_rename (directory m) (get_folder_path m)] @ [] @ [])
     (move_maildir opts fsa m)"
    unfolding move_maildir_def Let_def
    by (intro makes_seq makes_rename makes_remove_empty_parent)
       (simp add: makes_skip makes_remove_index_files)
  then show ?thesis by (simp add: rename_call_def)
qed

lemma makes_loop:
  "makes is_rename (map rename_call ms) (for_each (move_maildir opts fsa) ms)"
  using makes_for_each [of is_rename "\<lambda>m. [rename_call m]" "move_maildir opts fsa" ms]
  by (simp add: makes_move_maildir)

lemma filter_any_call: "filter any_call xs = xs"
  by (induction xs) (simp_all add: any_call_def)

lemma makes_move_inbox:
  "makes any_call (inbox_relocation_calls opts) (move_inbox opts fsa)"
proof -
  let ?inbox = "path_join (folder opts) (HIDDEN_FILE_PREFIX @ ''inbox'')"
  let ?k = "\<lambda>d. filter any_call [Call_rename (path_join ?inbox d) (path_join (folder opts) d)]"
  have "makes any_call (concat (map ?k MAILDIR_SPECIAL_DIRS) @ filter any_call [Call_rmdir ?inbox])
      (move_inbox opts fsa)"
    unfolding move_inbox_def Let_def
    by (intro makes_seq makes_for_each makes_rename makes_rmdir)
  then show ?thesis
    by (simp add: inbox_relocation_calls_def MAILDIR_SPECIAL_DIRS_def HIDDEN_FILE_PREFIX_def
        any_call_def)
qed

text \<open>
  Claim C8. The calls of the loop over the maildirs come first: its renames are those of
  the sorted maildirs in their order, all of them when the loop completes. A loop that
  raises ends the run there. After a completed loop the run calls \<open>rename\<close> for \<open>cur\<close>,
  \<open>new\<close> and \<open>tmp\<close> from the hidden inbox directory to the root, in this order, and then
  \<open>rmdir\<close> for the inbox directory, and nothing else; a run that returns normally has
  made all four calls.
\<close>

theorem inbox_relocation_comes_last:
  assumes "sorted_maildirs opts w = Inr ms"
    and "for_each (move_maildir opts fsa) ms w = (r, w1)"
  shows "(\<exists>made. calls w1 = calls w @ made \<and> prefix (filter is_rename made) (map rename_call ms)
            \<and> (r = Inr () \<longrightarrow> filter is_rename made = map rename_call ms))
     \<and> (r \<noteq> Inr () \<longrightarrow> move_kmail_folders opts fsa w = (r, w1))
     \<and> (r = Inr () \<longrightarrow>
          (\<exists>final. calls (snd (move_kmail_folders opts fsa w)) = calls w1 @ final
             \<and> prefix final (inbox_relocation_calls opts)
             \<and> (fst (move_kmail_folders opts fsa w) = Inr () \<longrightarrow> final = inbox_relocation_calls opts)))"
proof -
  have loop: "\<exists>made. calls w1 = calls w @ made \<and> prefix (filter is_rename made) (map rename_call ms)
            \<and> (r = Inr () \<longrightarrow> filter is_rename made = map rename_call ms)"
    using makes_loop [of ms opts fsa] assms(2) by (auto simp: makes_def dest!: spec [of _ w])
  have raised: "r \<noteq> Inr () \<longrightarrow> move_kmail_folders opts fsa w = (r, w1)"
    using assms by (cases r) (simp_all add: move_kmail_folders_def seq_def)
  have inbox: "r = Inr () \<longrightarrow>
          (\<exists>final. calls (snd (move_kmail_folders opts fsa w)) = calls w1 @ final
             \<and> prefix final (inbox_relocation_calls opts)
             \<and> (fst (move_kmail_folders opts fsa w) = Inr () \<longrightarrow> final = inbox_relocation_calls opts))"
  proof
    assume ok: "r = Inr ()"
    with assms have eq: "move_kmail_folders opts fsa w = move_inbox opts fsa w1"
      by (simp add: move_kmail_folders_def seq_def)
    from makes_move_inbox [of opts fsa] show "\<exists>final. calls (snd (move_kmail_folders opts fsa w)) = calls w1 @ final
             \<and> prefix final (inbox_relocation_calls opts)
             \<and> (fst (move_kmail_folders opts fsa w) = Inr () \<longrightarrow> final = inbox_relocation_calls opts)"
      unfolding eq by (simp add: makes_def filter_any_call)
  qed
  from loop raised inbox show ?thesis by blast
qed

theorem inbox_relocation_comes_last_witness:
  "sorted_maildirs archive_options archive_world = Inr archive_maildirs
   \<and> for_each (move_maildir archive_options real_pass) archive_maildirs archive_world
       = (Inr (), snd (for_each (move_maildir archive_options real_pass) archive_maildirs archive_world))
   \<and> fst (move_kmail_folders archive_options real_pass archive_world) = Inr ()
   \<and> (\<exists>final. calls (snd (move_kmail_folders archive_options real_pass archive_world))
         = calls (snd (for_each (move_maildir archive_options real_pass) archive_maildirs archive_world))
           @ final
         \<and> final = [Call_rename ''/mail/.inbox/cur'' ''/mail/cur'',
                    Call_rename ''/mail/.inbox/new'' ''/mail/new'',
                    Call_rename ''/mail/.inbox/tmp'' ''/mail/tmp'',
                    Call_rmdir ''/mail/.inbox''])"
proof -
  have h1: "sorted_maildirs archive_options archive_world = Inr archive_maildirs"
    by code_simp
  have "fst (for_each (move_maildir archive_options real_pass) archive_maildirs archive_world) = Inr ()"
    by code_simp
  then have h2: "for_each (move_maildir archive_options real_pass) archive_maildirs archive_world
       = (Inr (), snd (for_each (move_maildir archive_options real_pass) archive_maildirs archive_world))"
    by (cases "for_each (move_maildir archive_options real_pass) archive_maildirs archive_world") simp
  have ok: "fst (move_kmail_folders archive_options real_pass archive_world) = Inr ()"
    by code_simp
  have calls: "inbox_relocation_calls archive_options
      = [Call_rename ''/mail/.inbox/cur'' ''/mail/cur'',
         Call_rename ''/mail/.inbox/new'' ''/mail/new'',
         Call_rename ''/mail/.inbox/tmp'' ''/mail/tmp'',
         Call_rmdir ''/mail/.inbox'']"
    by code_simp
  from inbox_relocation_comes_last [OF h1 h2] h1 h2 ok calls show ?thesis by auto
qed

section \<open>The two passes of one run\<close>

text \<open>
  Claim C10. With the removal of index files requested, the validation pass and the real
  pass over the same tree make different calls: the real pass deletes the index files,
  finds the containers \<open>.Projects.directory\<close> and \<open>.Archive.directory\<close> empty and calls
  \<open>rmdir\<close> for them; the validation pass deletes nothing, finds them non-empty and never
  makes these calls.
\<close>

theorem passes_make_different_calls:
  "remove_index_files archive_options
   \<and> move_kmail_folders archive_options validation_pass archive_world
       = (Inr (), archive_world\<lparr>calls := archive_dry_calls\<rparr>)
   \<and> fst (move_kmail_folders archive_options real_pass archive_world) = Inr ()
   \<and> calls (snd (move_kmail_folders archive_options real_pass archive_world)) = archive_real_calls
   \<and> Call_rmdir ''/mail/.Archive.directory'' \<in> set archive_real_calls
   \<and> Call_rmdir ''/mail/.Archive.directory'' \<notin> set archive_dry_calls
   \<and> is_empty_dir archive_world ''/mail/.Archive.directory'' = Inr False
   \<and> fst (kmail2maildir archive_options archive_world) = Inr ()
   \<and> calls (snd (kmail2maildir archive_options archive_world)) = archive_dry_calls @ archive_real_calls"
  by code_simp

section \<open>Two folders with one flattened path\<close>

text \<open>
  Claim C1 at a tree where the folders \<open>A.B\<close> and \<open>.A.directory/B\<close> both get the
  flattened path \<open>/mail/.A.B\<close>: the validation pass returns normally, since it looks for
  the destination in a tree that it never changes; the real pass is entered, renames the
  first folder and raises at the second, with the tree changed.
\<close>

theorem collision_passes_validation:
  "sorted_maildirs mail_options collision_world = Inr collision_maildirs
   \<and> map directory collision_maildirs = [''/mail/A.B'', ''/mail/.A.directory/B'']
   \<and> map get_folder_path collision_maildirs = [''/mail/.A.B'', ''/mail/.A.B'']
   \<and> fst (move_kmail_folders mail_options validation_pass
             (print ''Checking if everything should work'' collision_world)) = Inr ()
   \<and> fst (kmail2maildir mail_options collision_world)
       = Inl (Exception ''Destination /mail/.A.B already exists'')
   \<and> tree (snd (kmail2maildir mail_options collision_world))
       = Dir [(''mail'', Dir [(''.A.directory'', Dir [(''B'', maildir_node)]),
                              (''.A.B'', maildir_node)])]
   \<and> tree (snd (kmail2maildir mail_options collision_world)) \<noteq> tree collision_world"
  by code_simp

section \<open>Discovery below a root whose path begins with a dot\<close>

text \<open>
  Claim C7 at the root \<open>.mail\<close>: its child \<open>Foo\<close> is a directory, its name does not begin
  with a dot and it holds \<open>cur\<close>, \<open>new\<close> and \<open>tmp\<close>, yet it is not discovered, because the
  test for the hidden-file marker looks at the first character of the whole path
  \<open>.mail/Foo\<close>. Under the absolute path of the same root it is discovered.
\<close>

theorem hidden_root_discovers_nothing:
  "get_subfolders_containers_recursive (recursion_limit hidden_root_world) hidden_root_world ''.mail''
     = Inr [''.mail'']
   \<and> listdir hidden_root_world ''.mail'' = Inr [''Foo'']
   \<and> isdir hidden_root_world (path_join ''.mail'' ''Foo'')
   \<and> \<not> startswith ''Foo'' HIDDEN_FILE_PREFIX
   \<and> is_maildir hidden_root_world (path_join ''.mail'' ''Foo'')
   \<and> get_maildirs_from_subfoldercontainers hidden_root_world [''.mail''] = Inr []
   \<and> get_maildirs_from_subfoldercontainers hidden_root_world [''/.mail''] = Inr [''/.mail/Foo'']"
  by code_simp

section \<open>What discovery yields\<close>

text \<open>
  The loops that collect results return what their parts returned, and the names that
  \<open>glob\<close> reads are names of the tree. Where neither the mailbox path nor a name of the
  tree holds a wildcard character, a path that \<open>glob\<close> returns is the directory part of
  its pattern joined with one of these names; so a discovered folder lies below the root
  through the names of containers, and its path relative to the root is these names
  followed by its own. With a wildcard character in the mailbox path the directory part
  of a pattern stands for other directories as well, and only the last name of a
  discovered path is known.
\<close>

lemma map_result_set:
  "map_result f xs = Inr ys \<Longrightarrow> y \<in> set ys \<Longrightarrow> \<exists>x \<in> set xs. f x = Inr y"
proof (induction xs arbitrary: ys)
  case Nil
  then show ?case by simp
next
  case (Cons x xs)
  then show ?case by (auto split: sum.splits)
qed

lemma extend_all_set:
  "extend_all rs = Inr ys \<Longrightarrow> y \<in> set ys \<Longrightarrow> \<exists>xs. Inr xs \<in> set rs \<and> y \<in> set xs"
proof (induction rs arbitrary: ys)
  case Nil
  then show ?case by simp
next
  case (Cons r rs)
  from Cons.prems(1) obtain xs zs where r: "r = Inr xs" and zs: "extend_all rs = Inr zs"
    and ys: "ys = xs @ zs"
    by (auto split: sum.splits)
  from Cons.prems(2) ys consider "y \<in> set xs" | "y \<in> set zs" by auto
  then show ?case
  proof cases
    case 1
    with r show ?thesis by auto
  next
    case 2
    from Cons.IH [OF zs 2] show ?thesis by auto
  qed
qed

lemma potential_maildirs_subset:
  "potential_maildirs ds = Inr r \<Longrightarrow> set r \<subseteq> set ds"
proof (induction ds arbitrary: r)
  case Nil
  then show ?case by simp
next
  case (Cons d ds)
  then show ?case by (auto split: sum.splits list.splits if_splits)
qed

lemma set_sort_reverse: "set (sort_reverse key xs) = set xs"
  by (simp add: sort_reverse_def)

lemma wf_name_not_abs: "wf_name n \<Longrightarrow> \<not> startswith n ''/''"
  by (cases n) (auto simp: wf_name_def startswith_def)

lemma path_join_name:
  assumes "wf_name x"
  shows "\<exists>pre. path_join a x = pre @ x \<and> (pre = [] \<or> last pre = CHR ''/'')"
proof -
  from assms have ns: "\<not> startswith x ''/''" by (rule wf_name_not_abs)
  show ?thesis
  proof (cases "a = [] \<or> endswith a ''/''")
    case True
    with ns have j: "path_join a x = a @ x" by (simp add: path_join_def)
    from True have "a = [] \<or> last a = CHR ''/''"
      by (cases a rule: rev_cases) (auto simp: endswith_def)
    with j show ?thesis by blast
  next
    case False
    with ns have "path_join a x = (a @ ''/'') @ x" by (simp add: path_join_def)
    moreover have "last (a @ ''/'') = CHR ''/''" by simp
    ultimately show ?thesis by blast
  qed
qed

lemma all_names_lookup:
  "all_names P n \<Longrightarrow> lookup n cs = Some n' \<Longrightarrow> all_names P n'"
proof (induction cs arbitrary: n)
  case Nil
  then show ?case by simp
next
  case (Cons c cs)
  from Cons.prems(2) obtain es ch where n: "n = Dir es" and ch: "map_of es c = Some ch"
    and rest: "lookup ch cs = Some n'"
    by (auto split: node.splits option.splits)
  from ch have "(c, ch) \<in> set es" by (rule map_of_SomeD)
  with Cons.prems(1) n have "all_names P ch" by (auto simp: list_all_iff)
  then show ?case using rest by (rule Cons.IH)
qed

lemma iterdir_names:
  assumes "all_names P (tree w)" and "x \<in> set (iterdir w p dironly)"
  shows "P x"
proof -
  define q where "q = (if p = [] then ''.'' else p)"
  have "iterdir w p dironly
      = (case stat w q of
           Some (Dir es) \<Rightarrow> map fst (if dironly then filter (\<lambda>e. is_dir_node (snd e)) es else es)
         | _ \<Rightarrow> [])"
    by (simp add: iterdir_def q_def)
  with assms(2) obtain es where st: "stat w q = Some (Dir es)" and x: "x \<in> fst ` set es"
    by (cases "stat w q") (auto split: node.splits if_splits)
  from st have "lookup (tree w) (resolve w q) = Some (Dir es)"
    by (auto simp: stat_def split: if_splits)
  with assms(1) have "all_names P (Dir es)" by (rule all_names_lookup)
  with x show ?thesis by (auto simp: list_all_iff)
qed

lemma glob1_member:
  assumes "x \<in> set (glob1 w d pat dironly)"
  shows "x \<in> set (iterdir w d dironly) \<and> fnmatch x pat \<and> (ishidden pat \<or> \<not> ishidden x)"
  using assms by (auto simp: glob1_def Let_def split: if_splits)

lemma has_magic_iff:
  "has_magic s = (\<exists>c \<in> set s. c = CHR ''*'' \<or> c = CHR ''?'' \<or> c = CHR ''['')"
  by (simp add: has_magic_def list_ex_iff)


lemma split_sep_nonempty: "split_sep s \<noteq> []"
  by (induction s) (auto split: list.splits)

lemma split_sep_name: "CHR ''/'' \<notin> set x \<Longrightarrow> split_sep x = [x]"
  by (induction x) auto

lemma split_sep_append:
  "split_sep (a @ CHR ''/'' # b) = split_sep a @ split_sep b"
proof (induction a)
  case Nil
  show ?case by simp
next
  case (Cons c a)
  obtain u us where u: "split_sep a = u # us"
    using split_sep_nonempty [of a] by (cases "split_sep a") auto
  with Cons show ?case by simp
qed

lemma norm_comps_last:
  "x \<noteq> [] \<Longrightarrow> x \<noteq> ''.'' \<Longrightarrow> x \<noteq> ''..'' \<Longrightarrow> norm_comps acc (cs @ [x]) = norm_comps acc cs @ [x]"
  by (induction cs arbitrary: acc) simp_all

lemma not_hidden_name:
  assumes "wf_name x" and "\<not> ishidden x"
  shows "x \<noteq> [] \<and> x \<noteq> ''.'' \<and> x \<noteq> ''..'' \<and> CHR ''/'' \<notin> set x \<and> strip_component x = x"
  using assms
  by (auto simp: wf_name_def ishidden_def startswith_def strip_component_def
      KMAIL_SUBDIR_PREFIX_def)









lemma takeWhile_until:
  "\<forall>c \<in> set xs. P c \<Longrightarrow> \<not> P y \<Longrightarrow> takeWhile P (xs @ y # ys) = xs"
  by (induction xs) simp_all

lemma path_tail_pattern:
  assumes "CHR ''/'' \<notin> set pat" and "pre = [] \<or> last pre = CHR ''/''"
  shows "path_tail (pre @ pat) = pat"
proof (cases "pre = []")
  case True
  have "takeWhile (\<lambda>c. c \<noteq> CHR ''/'') (rev pat) = rev pat"
    by (rule takeWhile_eq_all_conv [THEN iffD2]) (use assms(1) in auto)
  then have "rev (takeWhile (\<lambda>c. c \<noteq> CHR ''/'') (rev pat)) = pat"
    by (simp only: rev_rev_ident)
  with True show ?thesis by (simp only: path_tail_def append_Nil)
next
  case False
  with assms(2) have "pre = butlast pre @ [CHR ''/'']" by (metis append_butlast_last_id)
  then obtain b where b: "pre = b @ [CHR ''/'']" ..
  from assms(1) have "\<forall>c \<in> set (rev pat). c \<noteq> CHR ''/''" by auto
  then have "takeWhile (\<lambda>c. c \<noteq> CHR ''/'') (rev pat @ CHR ''/'' # rev b) = rev pat"
    by (rule takeWhile_until) simp
  then have "rev (takeWhile (\<lambda>c. c \<noteq> CHR ''/'') (rev ((b @ [CHR ''/'']) @ pat))) = pat"
    by (simp only: rev_append rev.simps append_Nil append_Cons append_assoc rev_rev_ident)
  with b show ?thesis by (simp only: path_tail_def)
qed

lemma path_split_join_pattern:
  assumes "CHR ''/'' \<notin> set pat"
  shows "path_split (path_join a pat) = (glob_dir a, pat)"
proof -
  have star: "CHR ''/'' \<notin> set ''*''" by simp
  have gen: "\<exists>pre. path_join a p = pre @ p \<and> (pre = [] \<or> last pre = CHR ''/'')
      \<and> pre = (if a = [] \<or> endswith a ''/'' then a else a @ ''/'')"
    if "CHR ''/'' \<notin> set p" for p
  proof -
    from that have ns: "\<not> startswith p ''/''"
      by (cases p) (auto simp: startswith_def)
    show ?thesis
    proof (cases "a = [] \<or> endswith a ''/''")
      case True
      then have "a = [] \<or> last a = CHR ''/''"
        by (cases a rule: rev_cases) (auto simp: endswith_def)
      with True ns show ?thesis by (simp add: path_join_def)
    next
      case False
      with ns show ?thesis by (simp add: path_join_def)
    qed
  qed
  define hd_part where "hd_part = (if a = [] \<or> endswith a ''/'' then a else a @ ''/'')"
  have split: "path_split (path_join a p)
      = (if hd_part \<noteq> [] \<and> hd_part \<noteq> replicate (length hd_part) (CHR ''/'')
         then rstrip_sep hd_part else hd_part, p)"
    if "CHR ''/'' \<notin> set p" for p
  proof -
    from gen [OF that] have j: "path_join a p = hd_part @ p" and l: "hd_part = [] \<or> last hd_part = CHR ''/''"
      by (auto simp: hd_part_def)
    from l have "path_tail (hd_part @ p) = p"
      by (rule path_tail_pattern [OF that])
    with j show ?thesis by (simp add: path_split_def Let_def)
  qed
  from split [OF star] split [OF assms] show ?thesis by (simp add: glob_dir_def)
qed













lemma path_join_magic:
  assumes "\<not> startswith b ''/''"
  shows "has_magic (path_join a b) = (has_magic a \<or> has_magic b)"
proof (cases "a = [] \<or> endswith a ''/''")
  case True
  with assms have "path_join a b = a @ b" by (simp add: path_join_def)
  then show ?thesis by (auto simp: has_magic_iff)
next
  case False
  with assms have "path_join a b = a @ ''/'' @ b" by (simp add: path_join_def)
  then show ?thesis by (auto simp: has_magic_iff)
qed



lemma split_join_pattern:
  assumes "CHR ''/'' \<notin> set pat"
  shows "dirname (path_join a pat) = glob_dir a" and "basename (path_join a pat) = pat"
  using path_split_join_pattern [OF assms, of a] by (simp_all add: dirname_def basename_def)

lemma pattern_not_abs: "CHR ''/'' \<notin> set pat \<Longrightarrow> \<not> startswith pat ''/''"
  by (cases pat) (auto simp: startswith_def)

text \<open>
  Whatever the directory part of the pattern stands for, a path that \<open>glob\<close> returns for
  the pattern \<open>*\<close> below it ends with the name of an entry that does not begin with a dot.
\<close>

lemma glob_star_member:
  assumes "wf_world w" and "d \<in> set (glob w (path_join c ''*''))"
  shows "\<exists>pre x. d = pre @ x \<and> (pre = [] \<or> last pre = CHR ''/'') \<and> wf_name x \<and> \<not> ishidden x"
proof -
  have ns: "CHR ''/'' \<notin> set ''*''" by simp
  have star: "has_magic ''*''" by (simp add: has_magic_def)
  then have hm: "has_magic (path_join c ''*'')"
    by (simp add: path_join_magic pattern_not_abs)
  note db = split_join_pattern [OF ns, of c]
  define dirs where "dirs = (if glob_dir c \<noteq> path_join c ''*'' \<and> has_magic (glob_dir c)
      then iglob w True (glob_dir c) else [glob_dir c])"
  have g1: "wf_name x \<and> \<not> ishidden x" if "x \<in> set (glob1 w dp ''*'' False)" for x dp
  proof -
    from glob1_member [OF that] have "x \<in> set (iterdir w dp False)" "\<not> ishidden x"
      by (auto simp: ishidden_def startswith_def)
    with iterdir_names [of wf_name w x dp False] assms(1) show ?thesis
      by (simp add: wf_world_def)
  qed
  from assms(2) have mem: "d \<in> set (iglob w False (path_join c ''*''))"
    by (simp add: glob_def)
  show ?thesis
  proof (cases "glob_dir c = []")
    case True
    have "iglob w False (path_join c ''*'') = glob1 w [] ''*'' False"
      by (subst iglob.simps) (simp add: hm db True)
    with mem have "d \<in> set (glob1 w [] ''*'' False)" by simp
    from g1 [OF this] have "d = [] @ d \<and> wf_name d \<and> \<not> ishidden d" by simp
    then show ?thesis by blast
  next
    case False
    have "iglob w False (path_join c ''*'')
        = concat (map (\<lambda>dp. map (path_join dp) (glob1 w dp ''*'' False)) dirs)"
      unfolding dirs_def by (subst iglob.simps) (simp add: hm db False star)
    with mem obtain dp x where x: "x \<in> set (glob1 w dp ''*'' False)" "d = path_join dp x"
      by auto
    from g1 [OF x(1)] have wx: "wf_name x" "\<not> ishidden x" by simp_all
    from path_join_name [OF wx(1), of dp] x(2) wx show ?thesis by auto
  qed
qed

lemma split_sep_last_name:
  assumes "CHR ''/'' \<notin> set x" and "pre = [] \<or> last pre = CHR ''/''"
  shows "\<exists>cs. split_sep (pre @ x) = cs @ [x]"
proof (cases "pre = []")
  case True
  with assms(1) have "split_sep (pre @ x) = [] @ [x]" by (simp add: split_sep_name)
  then show ?thesis by blast
next
  case False
  with assms(2) have "pre = butlast pre @ [CHR ''/'']" by (metis append_butlast_last_id)
  then obtain b where b: "pre = b @ [CHR ''/'']" ..
  have "split_sep (b @ CHR ''/'' # x) = split_sep b @ [x]"
    using assms(1) by (simp add: split_sep_append split_sep_name)
  with b show ?thesis by auto
qed

lemma abspath_comps_last:
  assumes "wf_name x" and "\<not> ishidden x" and "pre = [] \<or> last pre = CHR ''/''"
  shows "\<exists>cs. abspath_comps wd (pre @ x) = cs @ [x]"
proof -
  note nx = not_hidden_name [OF assms(1,2)]
  define full where "full = (if startswith (pre @ x) ''/'' then pre @ x else path_join wd (pre @ x))"
  have "\<exists>q. full = q @ x \<and> (q = [] \<or> last q = CHR ''/'')"
  proof (cases "startswith (pre @ x) ''/''")
    case True
    with assms(3) show ?thesis unfolding full_def by auto
  next
    case False
    show ?thesis
    proof (cases "wd = [] \<or> endswith wd ''/''")
      case True
      with False have f: "full = (wd @ pre) @ x" by (simp add: full_def path_join_def)
      from True have "wd = [] \<or> last wd = CHR ''/''"
        by (cases wd rule: rev_cases) (auto simp: endswith_def)
      with assms(3) have "wd @ pre = [] \<or> last (wd @ pre) = CHR ''/''"
        by (cases "pre = []") auto
      with f show ?thesis by blast
    next
      case wd: False
      with False have f: "full = (wd @ ''/'' @ pre) @ x" by (simp add: full_def path_join_def)
      from assms(3) have "last (wd @ ''/'' @ pre) = CHR ''/''"
        by (cases "pre = []") auto
      with f show ?thesis by blast
    qed
  qed
  then obtain q where q: "full = q @ x" "q = [] \<or> last q = CHR ''/''" by blast
  from nx have "CHR ''/'' \<notin> set x" by simp
  from split_sep_last_name [OF this q(2)] obtain cs where "split_sep (q @ x) = cs @ [x]" ..
  with q(1) have "abspath_comps wd (pre @ x) = norm_comps [] (cs @ [x])"
    by (simp add: abspath_comps_def full_def)
  also from nx have "\<dots> = norm_comps [] cs @ [x]" by (simp add: norm_comps_last)
  finally show ?thesis by blast
qed

lemma common_prefix_len_le: "common_prefix_len xs ys \<le> length ys"
  by (induction xs ys rule: common_prefix_len.induct) simp_all

lemma split_sep_path_join_last:
  assumes "z \<noteq> []" and "CHR ''/'' \<notin> set z"
  shows "last (split_sep (path_join a z)) = z"
proof -
  from assms have "wf_name z" by (simp add: wf_name_def)
  from path_join_name [OF this, of a] obtain pre where
    pre: "path_join a z = pre @ z" "pre = [] \<or> last pre = CHR ''/''"
    by blast
  from split_sep_last_name [OF assms(2) pre(2)] obtain cs where "split_sep (pre @ z) = cs @ [z]" ..
  with pre(1) show ?thesis by simp
qed

lemma rel_list_last:
  assumes "z \<noteq> []" and "CHR ''/'' \<notin> set z"
  shows "last (split_sep (case rs @ [z] of [] \<Rightarrow> ''.'' | r # rest \<Rightarrow> foldl path_join r rest)) = z"
proof (cases rs)
  case Nil
  with assms(2) show ?thesis by (simp add: split_sep_name)
next
  case (Cons r rest)
  then have "(case rs @ [z] of [] \<Rightarrow> ''.'' | r # rest \<Rightarrow> foldl path_join r rest)
      = path_join (foldl path_join r rest) z"
    by simp
  with assms show ?thesis by (simp add: split_sep_path_join_last)
qed

text \<open>
  The last component of the path of a discovered folder relative to the mailbox is never
  the empty string, so neither is the last logical segment of the folder.
\<close>

lemma relpath_last_segment:
  assumes "wf_name x" and "\<not> ishidden x" and "pre = [] \<or> last pre = CHR ''/''"
    and "relpath wd (pre @ x) start = Inr rel"
  shows "strip_component (last (split_sep rel)) \<noteq> []"
proof -
  note nx = not_hidden_name [OF assms(1,2)]
  from abspath_comps_last [OF assms(1-3), of wd] obtain cs where
    cs: "abspath_comps wd (pre @ x) = cs @ [x]" ..
  define i where "i = common_prefix_len (abspath_comps wd start) (cs @ [x])"
  define k where "k = length (abspath_comps wd start) - i"
  from assms(4) cs have rel: "rel = (case replicate k ''..'' @ drop i (cs @ [x]) of
      [] \<Rightarrow> ''.'' | r # rs \<Rightarrow> foldl path_join r rs)"
    by (auto simp: relpath_def Let_def i_def k_def split: if_splits)
  have "i \<le> length (cs @ [x])" unfolding i_def by (rule common_prefix_len_le)
  then consider "i \<le> length cs" | "i = Suc (length cs)" by fastforce
  then show ?thesis
  proof cases
    case 1
    then have "replicate k ''..'' @ drop i (cs @ [x]) = (replicate k ''..'' @ drop i cs) @ [x]"
      by simp
    with rel have "last (split_sep rel) = x"
      using rel_list_last [of x "replicate k ''..'' @ drop i cs"] nx by simp
    with nx show ?thesis by simp
  next
    case 2
    then have d: "drop i (cs @ [x]) = []" by simp
    show ?thesis
    proof (cases k)
      case 0
      with rel d have "rel = ''.''" by simp
      then show ?thesis
        by (simp add: strip_component_def KMAIL_SUBDIR_PREFIX_def KMAIL_SUBDIR_SUFFIX_def
            startswith_def endswith_def)
    next
      case (Suc j)
      then have "replicate k ''..'' @ drop i (cs @ [x]) = replicate j ''..'' @ [''..'']"
        using d by (simp add: replicate_append_same)
      with rel have "last (split_sep rel) = ''..''"
        using rel_list_last [of "''..''" "replicate j ''..''"] by simp
      then show ?thesis
        by (simp add: strip_component_def KMAIL_SUBDIR_PREFIX_def KMAIL_SUBDIR_SUFFIX_def
            startswith_def endswith_def)
    qed
  qed
qed

lemma sorted_maildirs_member:
  assumes "sorted_maildirs opts w = Inr ms" and "m \<in> set ms"
  shows "\<exists>container dir. dir \<in> set (glob w (path_join container ''*''))
     \<and> Maildir_init w opts dir = Inr m"
proof -
  from assms(1) obtain containers paths maildirs where
    p: "get_maildirs_from_subfoldercontainers w containers = Inr paths"
    and i: "map_result (Maildir_init w opts) paths = Inr maildirs"
    and s: "ms = sort_reverse get_folder_path maildirs"
    by (auto simp: sorted_maildirs_def split: sum.splits)
  from s assms(2) have "m \<in> set maildirs" by (simp add: set_sort_reverse)
  with i obtain dir where dir: "dir \<in> set paths" "Maildir_init w opts dir = Inr m"
    by (blast dest: map_result_set)
  from p dir(1) obtain found where "Inr found \<in> set (map (maildirs_of_container w) containers)"
    "dir \<in> set found"
    unfolding get_maildirs_from_subfoldercontainers_def by (blast dest: extend_all_set)
  then obtain container where k: "maildirs_of_container w container = Inr found" "dir \<in> set found"
    by auto
  from k have "dir \<in> set (glob w (path_join container ''*''))"
    by (auto simp: maildirs_of_container_def Let_def split: sum.splits
        dest!: potential_maildirs_subset)
  with dir(2) show ?thesis by blast
qed

lemma Maildir_init_fields:
  "Maildir_init w opts dir = Inr m \<Longrightarrow>
     args m = opts \<and> (\<exists>rel. relpath (cwd w) dir (folder opts) = Inr rel
        \<and> path_list m = map strip_component (split_sep rel))"
  by (auto simp: Maildir_init_def path_components_def split: sum.splits)

lemma discovered_segments:
  assumes "wf_world w" and "sorted_maildirs opts w = Inr ms" and "m \<in> set ms"
  shows "args m = opts \<and> path_list m \<noteq> [] \<and> last (path_list m) \<noteq> []"
proof -
  from sorted_maildirs_member [OF assms(2,3)] obtain container dir where
    g: "dir \<in> set (glob w (path_join container ''*''))" and mi: "Maildir_init w opts dir = Inr m"
    by blast
  from glob_star_member [OF assms(1) g] obtain pre x where
    x: "dir = pre @ x" "pre = [] \<or> last pre = CHR ''/''" "wf_name x" "\<not> ishidden x"
    by blast
  from Maildir_init_fields [OF mi] obtain rel where a: "args m = opts"
    and rel: "relpath (cwd w) dir (folder opts) = Inr rel"
    and pl: "path_list m = map strip_component (split_sep rel)"
    by blast
  from rel x(1) have "relpath (cwd w) (pre @ x) (folder opts) = Inr rel" by simp
  from relpath_last_segment [OF x(3,4,2) this]
  have "strip_component (last (split_sep rel)) \<noteq> []" .
  with pl split_sep_nonempty [of rel] have "path_list m \<noteq> []" "last (path_list m) \<noteq> []"
    by (simp_all add: last_map)
  with a show ?thesis by simp
qed










section \<open>The order of the renames\<close>

lemma sort_reverse_descending:
  "sorted_wrt (\<lambda>a b. key b \<le> key a) (sort_reverse key xs)"
proof -
  have "sorted (map key (sort_key key (rev xs)))" by simp
  then have "sorted_wrt (\<lambda>a b. key a \<le> key b) (sort_key key (rev xs))"
    by (simp add: sorted_map)
  then show ?thesis
    by (simp add: sort_reverse_def sorted_wrt_rev)
qed

lemma sort_reverse_greater_first:
  assumes "i < length (sort_reverse key xs)" and "j < length (sort_reverse key xs)"
    and "key (sort_reverse key xs ! j) < key (sort_reverse key xs ! i)"
  shows "i < j"
proof (rule ccontr)
  assume "\<not> i < j"
  then consider "i = j" | "j < i" by linarith
  then show False
  proof cases
    case 1
    with assms(3) show False by simp
  next
    case 2
    from sorted_wrt_nth_less [OF sort_reverse_descending 2 assms(1)]
    have "key (sort_reverse key xs ! i) \<le> key (sort_reverse key xs ! j)" .
    with assms(3) show False by simp
  qed
qed

lemma str_join_append:
  "xs \<noteq> [] \<Longrightarrow> ys \<noteq> [] \<Longrightarrow> str_join sep (xs @ ys) = str_join sep xs @ sep @ str_join sep ys"
proof (induction sep xs rule: str_join.induct)
  case (1 sep)
  then show ?case by simp
next
  case (2 sep x)
  then show ?case by (cases ys) simp_all
next
  case (3 sep x y ys')
  then show ?case by simp
qed

lemma str_join_nonempty:
  "ys \<noteq> [] \<Longrightarrow> last ys \<noteq> [] \<Longrightarrow> str_join sep ys \<noteq> []"
  by (induction sep ys rule: str_join.induct) simp_all

lemma less_append_same: "ys \<noteq> [] \<Longrightarrow> xs < xs @ (ys :: string)"
  by (induction xs) (auto simp: neq_Nil_conv)

lemma get_folder_path_append:
  "get_folder_path m
     = (if folder (args m) = [] \<or> endswith (folder (args m)) ''/'' then folder (args m)
        else folder (args m) @ ''/'')
       @ ''.'' @ str_join (hierarchy_separator (args m)) (path_list m)"
  by (simp add: get_folder_path_def path_join_def HIDDEN_FILE_PREFIX_def startswith_def)

lemma ancestor_flattened_less:
  assumes "args f = args g"
    and "strict_prefix (path_list f) (path_list g)"
    and "path_list f \<noteq> []"
    and "hierarchy_separator (args g) \<noteq> [] \<or> last (path_list g) \<noteq> []"
  shows "get_folder_path f < get_folder_path g"
proof -
  define sep where "sep = hierarchy_separator (args g)"
  define base where "base = (if folder (args g) = [] \<or> endswith (folder (args g)) ''/''
      then folder (args g) else folder (args g) @ ''/'') @ ''.''"
  from assms(2) obtain rest where rest: "path_list g = path_list f @ rest" "rest \<noteq> []"
    by (auto simp: strict_prefix_def prefix_def)
  have pf: "get_folder_path f = base @ str_join sep (path_list f)"
    unfolding base_def sep_def assms(1) [symmetric] by (simp add: get_folder_path_append)
  have "get_folder_path g = base @ str_join sep (path_list f @ rest)"
    unfolding base_def sep_def rest(1) [symmetric] by (simp add: get_folder_path_append)
  also have "str_join sep (path_list f @ rest) = str_join sep (path_list f) @ sep @ str_join sep rest"
    using assms(3) rest(2) by (rule str_join_append)
  finally have pg: "get_folder_path g = get_folder_path f @ (sep @ str_join sep rest)"
    by (simp add: pf)
  from rest have "last rest = last (path_list g)" by simp
  with assms(4) have "sep \<noteq> [] \<or> last rest \<noteq> []"
    by (simp add: sep_def)
  with rest(2) have "sep @ str_join sep rest \<noteq> []"
    using str_join_nonempty [of rest sep] by auto
  then have "get_folder_path f < get_folder_path f @ (sep @ str_join sep rest)"
    by (rule less_append_same)
  with pg show ?thesis by simp
qed

text \<open>
  Claim C4. Among the folders discovered in a well-formed tree, a folder whose logical
  segments extend those of another one (the other one is its ancestor) stands before it in
  the sorted list, because its flattened path is the greater one. The renames that the
  loop calls are those of the sorted list in the order of the list, each of them when the
  loop completes and the first ones of the list when a call raises, so the rename of the
  descendant is called before the rename of the ancestor.
\<close>

theorem depth_safe_ordering:
  assumes "wf_world w"
    and "sorted_maildirs opts w = Inr ms"
    and "i < length ms" and "j < length ms"
    and "strict_prefix (path_list (ms ! j)) (path_list (ms ! i))"
  shows "i < j
     \<and> (\<exists>made. calls (snd (for_each (move_maildir opts fsa) ms w)) = calls w @ made
           \<and> prefix (filter is_rename made) (map rename_call ms)
           \<and> (fst (for_each (move_maildir opts fsa) ms w) = Inr ()
                \<longrightarrow> filter is_rename made = map rename_call ms))"
proof -
  from assms(2) obtain maildirs where s: "ms = sort_reverse get_folder_path maildirs"
    by (auto simp: sorted_maildirs_def split: sum.splits)
  from assms(3,4) have mem: "ms ! i \<in> set ms" "ms ! j \<in> set ms" by simp_all
  note gi = discovered_segments [OF assms(1,2) mem(1)]
  note gj = discovered_segments [OF assms(1,2) mem(2)]
  from gi gj have same: "args (ms ! j) = args (ms ! i)" by simp
  from gj have nonempty: "path_list (ms ! j) \<noteq> []" by simp
  from gi have strict: "hierarchy_separator (args (ms ! i)) \<noteq> [] \<or> last (path_list (ms ! i)) \<noteq> []"
    by simp
  have less: "get_folder_path (ms ! j) < get_folder_path (ms ! i)"
    using same assms(5) nonempty strict by (rule ancestor_flattened_less)
  have order: "i < j"
    using assms(3,4) less unfolding s by (rule sort_reverse_greater_first)
  from makes_loop [of ms opts fsa]
  have "\<exists>made. calls (snd (for_each (move_maildir opts fsa) ms w)) = calls w @ made
           \<and> prefix (filter is_rename made) (map rename_call ms)
           \<and> (fst (for_each (move_maildir opts fsa) ms w) = Inr ()
                \<longrightarrow> filter is_rename made = map rename_call ms)"
    unfolding makes_def by blast
  with order show ?thesis by simp
qed

theorem depth_safe_ordering_witness:
  "wf_world archive_world
   \<and> sorted_maildirs archive_options archive_world = Inr archive_maildirs
   \<and> (0::nat) < length archive_maildirs \<and> (1::nat) < length archive_maildirs
   \<and> strict_prefix (path_list (archive_maildirs ! 1)) (path_list (archive_maildirs ! 0))
   \<and> name (archive_maildirs ! 0) = ''Old'' \<and> name (archive_maildirs ! 1) = ''Projects''
   \<and> (0::nat) < 1
   \<and> fst (for_each (move_maildir archive_options real_pass) archive_maildirs archive_world) = Inr ()
   \<and> (\<exists>made. calls (snd (for_each (move_maildir archive_options real_pass) archive_maildirs
                  archive_world)) = calls archive_world @ made
         \<and> filter is_rename made = map rename_call archive_maildirs)"
proof -
  have h1: "wf_world archive_world" by code_simp
  have h2: "sorted_maildirs archive_options archive_world = Inr archive_maildirs" by code_simp
  have h3: "0 < length archive_maildirs" by (simp add: archive_maildirs_def)
  have h4: "1 < length archive_maildirs" by (simp add: archive_maildirs_def)
  have h5: "strict_prefix (path_list (archive_maildirs ! 1)) (path_list (archive_maildirs ! 0))"
    by (simp add: archive_maildirs_def)
  have h6: "fst (for_each (move_maildir archive_options real_pass) archive_maildirs archive_world)
      = Inr ()"
    by code_simp
  from depth_safe_ordering [OF h1 h2 h3 h4 h5, of real_pass] h6
  have "\<exists>made. calls (snd (for_each (move_maildir archive_options real_pass) archive_maildirs
                  archive_world)) = calls archive_world @ made
         \<and> filter is_rename made = map rename_call archive_maildirs"
    by blast
  with h1 h2 h3 h4 h5 h6 show ?thesis
    by (simp add: archive_maildirs_def)
qed

section \<open>Flattened paths of distinct folders\<close>


text \<open>
  It fails as well where the mailbox path holds a wildcard character, though no segment
  holds the separator: \<open>glob\<close> then finds folders of the directories that the mailbox path
  matches, here \<open>/mail/A/X\<close> for the mailbox \<open>/mail/*\<close>, and the segments of such a folder
  can be those of a folder of the mailbox.
\<close>

lemma wildcard_mailbox_collision:
  "wf_world wildcard_world
   \<and> sorted_maildirs wildcard_options wildcard_world = Inr wildcard_maildirs
   \<and> distinct (map directory wildcard_maildirs)
   \<and> list_all (\<lambda>m. list_all (\<lambda>s. CHR '':'' \<notin> set s) (path_list m)) wildcard_maildirs
   \<and> map get_folder_path wildcard_maildirs = [''/mail/*/...:A:X'', ''/mail/*/...:A:X'']"
  by code_simp











end
